theory Spec2Isabelle
  imports Main "HOL-Library.Sublist"
begin

section \<open>Python strings, lists and paths used by \<open>download_stereo4d.py\<close>\<close>

text \<open>
  A Python \<open>str\<close> is modelled as a \<open>string\<close>; one \<open>char\<close> stands for one code point
  below 256. Python integers are \<open>int\<close>. Functions that Python lets raise return a sum
  with the exception on the left.
\<close>

datatype py_error =
    IndexError | ZeroDivisionError | FileNotFoundError | IsADirectoryError | ValueError
  | TypeError | OverflowError

definition LF :: char where
  "LF = CHR 0x0A"

definition CR :: char where
  "CR = CHR 0x0D"

definition TAB :: char where
  "TAB = CHR 0x09"

text \<open>\<open>sub in s\<close> on strings: \<open>sub\<close> occurs in \<open>s\<close> as a contiguous run.\<close>

fun py_in :: "string \<Rightarrow> string \<Rightarrow> bool" where
  "py_in sub [] = (sub = [])"
| "py_in sub (c # cs) = (prefix sub (c # cs) \<or> py_in sub cs)"

text \<open>
  \<open>s.split(sep)\<close>: the pieces between the non-overlapping occurrences of \<open>sep\<close>, found
  from the left. Python raises \<open>ValueError\<close> on an empty separator; the program only
  passes non-empty literals, and on an empty one this function returns \<open>[s]\<close>.
\<close>

function py_split_from :: "string \<Rightarrow> string \<Rightarrow> string \<Rightarrow> string list" where
  "py_split_from sep acc [] = [acc]"
| "py_split_from sep acc (c # cs) =
     (if sep \<noteq> [] \<and> prefix sep (c # cs)
      then acc # py_split_from sep [] (drop (length sep) (c # cs))
      else py_split_from sep (acc @ [c]) cs)"
  by pat_completeness auto
termination
  by (relation "measure (\<lambda>(sep, acc, rest). length rest)") (auto simp: neq_Nil_conv)

definition py_split :: "string \<Rightarrow> string \<Rightarrow> string list" where
  "py_split s sep = py_split_from sep [] s"

text \<open>\<open>s.replace(old, new)\<close> for a non-empty \<open>old\<close>: every occurrence, from the left.\<close>

function py_replace :: "string \<Rightarrow> string \<Rightarrow> string \<Rightarrow> string" where
  "py_replace old new [] = []"
| "py_replace old new (c # cs) =
     (if old \<noteq> [] \<and> prefix old (c # cs)
      then new @ py_replace old new (drop (length old) (c # cs))
      else c # py_replace old new cs)"
  by pat_completeness auto
termination
  by (relation "measure (\<lambda>(old, new, rest). length rest)") (auto simp: neq_Nil_conv)

text \<open>
  \<open>str.isspace\<close> on the code points below 256, and \<open>s.strip()\<close>, which removes such
  characters from both ends.
\<close>

definition py_isspace :: "char \<Rightarrow> bool" where
  "py_isspace c =
     (c \<in> set [CHR 0x09, CHR 0x0A, CHR 0x0B, CHR 0x0C, CHR 0x0D, CHR 0x1C, CHR 0x1D,
                CHR 0x1E, CHR 0x1F, CHR 0x20, CHR 0x85, CHR 0xA0])"

definition py_strip :: "string \<Rightarrow> string" where
  "py_strip s = rev (dropWhile py_isspace (rev (dropWhile py_isspace s)))"

text \<open>\<open>str(n)\<close> for an integer: its decimal digits, with a minus sign when negative.\<close>

fun str_nat :: "nat \<Rightarrow> string" where
  "str_nat n =
     (if n < 10 then [''0123456789'' ! n]
      else str_nat (n div 10) @ [''0123456789'' ! (n mod 10)])"

declare str_nat.simps [simp del]

definition str_int :: "int \<Rightarrow> string" where
  "str_int i = (if i < 0 then ''-'' @ str_nat (nat (- i)) else str_nat (nat i))"

text \<open>
  \<open>xs[i:j]\<close>: a negative index counts from the end, and both ends are clamped to the
  list.
\<close>

definition slice_index :: "int \<Rightarrow> int \<Rightarrow> int" where
  "slice_index n i = (if i < 0 then max 0 (i + n) else min i n)"

definition py_slice :: "'a list \<Rightarrow> int \<Rightarrow> int \<Rightarrow> 'a list" where
  "py_slice xs i j =
     (let n = int (length xs); a = slice_index n i; b = slice_index n j
      in take (nat (b - a)) (drop (nat a) xs))"

text \<open>\<open>os.path.join(a, b)\<close> and \<open>os.path.basename(p)\<close> on POSIX paths.\<close>

definition path_join :: "string \<Rightarrow> string \<Rightarrow> string" where
  "path_join a b =
     (if prefix ''/'' b then b
      else if a = [] \<or> last a = CHR ''/'' then a @ b
      else a @ ''/'' @ b)"

definition basename :: "string \<Rightarrow> string" where
  "basename p = rev (takeWhile (\<lambda>c. c \<noteq> CHR ''/'') (rev p))"


section \<open>The world the program runs in\<close>

text \<open>
  The file system holds text files (path to content) and a set of directories. Opening
  a missing file for reading raises \<open>FileNotFoundError\<close> and a directory
  \<open>IsADirectoryError\<close>; creating a directory and writing or appending to a file
  always succeed: the other failures of the operating system (permissions, a full
  disk, a missing parent directory) are outside the model.

  The \<open>trace\<close> records, in order, what the program does to the outside: each process
  it spawns, with its argument vector; each \<open>time.sleep\<close> that sleeps (the one of the
  retry loop as \<open>Backoff\<close> with its base \<open>2 ** attempt\<close>, to which the source adds
  a floating-point jitter \<open>random.uniform(0, 1)\<close> that is not represented; the one
  between batches as \<open>Pace\<close> with its number of seconds); and each call of
  \<open>download_batch\<close>, with the list it is given. \<open>draws\<close> counts the values taken from
  the random generator. \<open>print\<close> statements, and the \<open>verbose\<close> flag that only guards
  printing, are left out.
\<close>

datatype event =
    Batch "string list"
  | Spawn "string list"
  | Backoff nat
  | Pace int

record world =
  files :: "string \<rightharpoonup> string"
  dirs :: "string set"
  trace :: "event list"
  draws :: nat

text \<open>
  What a spawned process gives back: its return code, standard output and standard
  error, or an exception raised by \<open>Popen\<close> or \<open>communicate\<close> (with its \<open>str(e)\<close>).
  The external downloader is a parameter: from the events so far, the files and the
  argument vector it yields the outcome and the files it leaves behind.
\<close>

datatype proc = Exited int string string | Raised string

type_synonym tool =
  "event list \<Rightarrow> (string \<rightharpoonup> string) \<Rightarrow> string list \<Rightarrow> proc \<times> (string \<rightharpoonup> string)"

definition popen_communicate :: "tool \<Rightarrow> string list \<Rightarrow> world \<Rightarrow> proc \<times> world" where
  "popen_communicate yt cmd w =
     (let (r, fs) = yt (trace w) (files w) cmd
      in (r, w\<lparr>files := fs, trace := trace w @ [Spawn cmd]\<rparr>))"

definition path_exists :: "world \<Rightarrow> string \<Rightarrow> bool" where
  "path_exists w p = (files w p \<noteq> None \<or> p \<in> dirs w)"

definition makedirs :: "string \<Rightarrow> world \<Rightarrow> world" where
  "makedirs p w = w\<lparr>dirs := insert p (dirs w)\<rparr>"

definition write_file :: "string \<Rightarrow> string \<Rightarrow> world \<Rightarrow> world" where
  "write_file p s w = w\<lparr>files := (files w)(p \<mapsto> s)\<rparr>"

definition append_file :: "string \<Rightarrow> string \<Rightarrow> world \<Rightarrow> world" where
  "append_file p s w =
     w\<lparr>files := (files w)(p \<mapsto> (case files w p of None \<Rightarrow> s | Some old \<Rightarrow> old @ s))\<rparr>"

text \<open>
  Iterating over a file opened in text mode: the lines, each ending in a line feed
  (universal newlines turn \<open>CR LF\<close> and a lone \<open>CR\<close> into one), the last one as it
  stands.
\<close>

fun file_lines :: "string \<Rightarrow> string \<Rightarrow> string list" where
  "file_lines acc [] = (if acc = [] then [] else [acc])"
| "file_lines acc (c # cs) =
     (if c = CR \<and> cs \<noteq> [] \<and> hd cs = LF then (acc @ [LF]) # file_lines [] (tl cs)
      else if c = CR \<or> c = LF then (acc @ [LF]) # file_lines [] cs
      else file_lines (acc @ [c]) cs)"

text \<open>The comprehension \<open>[line.strip() for line in f if line.strip()]\<close>.\<close>

definition stripped_lines :: "string \<Rightarrow> string list" where
  "stripped_lines content =
     map py_strip (filter (\<lambda>line. py_strip line \<noteq> []) (file_lines [] content))"

text \<open>
  The backoff of the retry loop, \<open>wait_time = (2 ** attempt) + random.uniform(0, 1)\<close>
  followed by \<open>time.sleep(wait_time)\<close>. One value is taken from the generator. The sum
  raises \<open>OverflowError\<close> when \<open>2 ** attempt\<close> does not convert to a float, from
  attempt 1024 on; \<open>time.sleep\<close> raises \<open>OverflowError\<close> when the duration does not fit
  its 64-bit count of nanoseconds, from \<open>2 ** 34\<close> seconds on (the jitter is below 1,
  so it never decides). Otherwise the sleep takes place. \<open>overflow_str\<close> is the
  \<open>str(e)\<close> of the error raised.
\<close>

definition sleep_backoff :: "int \<Rightarrow> world \<Rightarrow> (py_error + unit) \<times> world" where
  "sleep_backoff attempt w =
     (let w1 = w\<lparr>draws := Suc (draws w)\<rparr>
      in if 1024 \<le> attempt then (Inl OverflowError, w1)
         else if 34 \<le> attempt then (Inl OverflowError, w1)
         else (Inr (), w1\<lparr>trace := trace w1 @ [Backoff (2 ^ nat attempt)]\<rparr>))"

definition overflow_str :: "int \<Rightarrow> string" where
  "overflow_str attempt =
     (if 1024 \<le> attempt then ''int too large to convert to float''
      else ''timestamp too large to convert to C _PyTime_t'')"

text \<open>
  \<open>random.randint(a, b)\<close> returns an integer \<open>N\<close> with \<open>a \<le> N \<le> b\<close>. The generator is
  a parameter \<open>rnd\<close>, the sequence of its raw values; the value returned is \<open>a\<close> plus
  the raw value modulo the number of integers in the range.
\<close>

definition randint :: "(nat \<Rightarrow> nat) \<Rightarrow> int \<Rightarrow> int \<Rightarrow> world \<Rightarrow> int \<times> world" where
  "randint rnd a b w =
     (a + int (rnd (draws w) mod nat (b - a + 1)), w\<lparr>draws := Suc (draws w)\<rparr>)"


section \<open>The program\<close>

subsection \<open>\<open>read_urls\<close> and \<open>read_downloaded_urls\<close>\<close>

text \<open>\<open>open(p, 'r')\<close> followed by reading the whole file.\<close>

definition open_read :: "string \<Rightarrow> world \<Rightarrow> py_error + string" where
  "open_read p w =
     (case files w p of
        Some content \<Rightarrow> Inr content
      | None \<Rightarrow> if p \<in> dirs w then Inl IsADirectoryError else Inl FileNotFoundError)"

definition read_urls :: "string \<Rightarrow> world \<Rightarrow> py_error + string list" where
  "read_urls file_path w =
     (case open_read file_path w of
        Inl e \<Rightarrow> Inl e
      | Inr content \<Rightarrow> Inr (stripped_lines content))"

definition read_downloaded_urls :: "string \<Rightarrow> world \<Rightarrow> py_error + string set" where
  "read_downloaded_urls file_path w =
     (if path_exists w file_path
      then (case open_read file_path w of
              Inl e \<Rightarrow> Inl e
            | Inr content \<Rightarrow> Inr (set (stripped_lines content)))
      else Inr {})"

subsection \<open>\<open>extract_video_id_from_url\<close>\<close>

definition long_marker :: string where
  "long_marker = ''youtube.com/watch?v=''"

definition short_marker :: string where
  "short_marker = ''youtu.be/''"

text \<open>\<open>s.split(sep)[1].split(stop)[0]\<close>, with the \<open>IndexError\<close> of an index out of range.\<close>

definition second_then_first :: "string \<Rightarrow> string \<Rightarrow> string \<Rightarrow> py_error + string" where
  "second_then_first s sep stop =
     (case py_split s sep of
        _ # part # _ \<Rightarrow>
          (case py_split part stop of
             [] \<Rightarrow> Inl IndexError
           | piece # _ \<Rightarrow> Inr piece)
      | _ \<Rightarrow> Inl IndexError)"

definition extract_video_id_from_url :: "string \<Rightarrow> py_error + string" where
  "extract_video_id_from_url url =
     (if py_in long_marker url then second_then_first url long_marker ''&''
      else if py_in short_marker url then second_then_first url short_marker ''?''
      else Inr url)"

subsection \<open>\<open>download_video\<close>\<close>

text \<open>
  The dictionary a fetch returns: the constructor is its \<open>status\<close>; the fields are
  \<open>url\<close>, \<open>video_id\<close> and, for an error, \<open>error\<close> and \<open>details\<close> (absent from the
  dictionary built in the exception handler).
\<close>

datatype download_result =
    Success string string
  | Already_exists string string
  | Error string string string "string option"

definition bot_marker :: string where
  "bot_marker = ''Sign in to confirm you're not a bot''"

definition unavailable_marker :: string where
  "unavailable_marker = ''Video unavailable''"

definition auth_required_msg :: string where
  "auth_required_msg = ''Authentication required. Use --cookies-file or --cookies-from-browser''"

definition unavailable_msg :: string where
  "unavailable_msg = ''Video unavailable (removed or private)''"

definition failed_after_msg :: "int \<Rightarrow> string" where
  "failed_after_msg retry_count = ''Failed after '' @ str_int retry_count @ '' attempts''"

text \<open>Python's truth value of an optional string: \<open>None\<close> and \<open>""\<close> are false.\<close>

fun truthy :: "string option \<Rightarrow> bool" where
  "truthy None = False"
| "truthy (Some s) = (s \<noteq> [])"

fun cookie_args :: "string \<Rightarrow> string option \<Rightarrow> string list" where
  "cookie_args flag None = []"
| "cookie_args flag (Some s) = (if s = [] then [] else [flag, s])"

definition primary_cmd ::
  "string \<Rightarrow> string \<Rightarrow> string option \<Rightarrow> string option \<Rightarrow> string list" where
  "primary_cmd url output_template cookies_file cookies_from_browser =
     [''yt-dlp'', url, ''-f'', ''313'', ''-o'', output_template, ''--no-playlist'',
      ''--no-check-certificate'', ''--ignore-errors'']
     @ cookie_args ''--cookies'' cookies_file
     @ cookie_args ''--cookies-from-browser'' cookies_from_browser"

definition fallback_cmd ::
  "string \<Rightarrow> string \<Rightarrow> string option \<Rightarrow> string option \<Rightarrow> string list" where
  "fallback_cmd url output_template cookies_file cookies_from_browser =
     [''yt-dlp'', url, ''-f'', ''bestvideo[ext=webm]'', ''-o'', output_template,
      ''--no-playlist'', ''--no-check-certificate'', ''--extractor-arg'',
      ''youtube:player_client=android_vr'']
     @ cookie_args ''--cookies'' cookies_file
     @ cookie_args ''--cookies-from-browser'' cookies_from_browser"

text \<open>
  One pass through the body of the retry loop returns, goes on, or lets an exception
  leave the function.
\<close>

datatype step = Return download_result | Continue | Raise py_error

text \<open>
  The handler \<open>except Exception as e\<close>. An exception raised by its own backoff is not
  caught by anything.
\<close>

definition on_exception ::
  "string \<Rightarrow> string \<Rightarrow> int \<Rightarrow> int \<Rightarrow> string \<Rightarrow> world \<Rightarrow> step \<times> world" where
  "on_exception url video_id retry_count attempt e w =
     (if attempt < retry_count - 1 then
        (case sleep_backoff attempt w of
           (Inl err, w1) \<Rightarrow> (Raise err, w1)
         | (Inr u, w1) \<Rightarrow> (Continue, w1))
      else (Return (Error url video_id e None), w))"

text \<open>
  The end of the branch for a non-zero return code: back off, or give up. The backoff
  is inside the \<open>try\<close> block, so an exception it raises goes to the handler.
\<close>

definition retry_or_fail ::
  "string \<Rightarrow> string \<Rightarrow> int \<Rightarrow> int \<Rightarrow> string \<Rightarrow> string \<Rightarrow> world \<Rightarrow> step \<times> world" where
  "retry_or_fail url video_id retry_count attempt stdout stderr w =
     (if attempt < retry_count - 1 then
        (case sleep_backoff attempt w of
           (Inl err, w1) \<Rightarrow>
             on_exception url video_id retry_count attempt (overflow_str attempt) w1
         | (Inr u, w1) \<Rightarrow> (Continue, w1))
      else (Return (Error url video_id (failed_after_msg retry_count) (Some (stdout @ stderr))),
            w))"

definition attempt_body ::
  "tool \<Rightarrow> string \<Rightarrow> string \<Rightarrow> string \<Rightarrow> int \<Rightarrow> string option \<Rightarrow> string option \<Rightarrow>
   int \<Rightarrow> world \<Rightarrow> step \<times> world" where
  "attempt_body yt url video_id output_template retry_count cookies_file
       cookies_from_browser attempt w =
     (case popen_communicate yt
             (primary_cmd url output_template cookies_file cookies_from_browser) w of
        (Raised e, w1) \<Rightarrow> on_exception url video_id retry_count attempt e w1
      | (Exited returncode stdout stderr, w1) \<Rightarrow>
          if returncode \<noteq> 0 then
            if (py_in bot_marker stderr \<or> py_in bot_marker stdout)
               \<and> \<not> (truthy cookies_file \<or> truthy cookies_from_browser)
            then (Return (Error url video_id auth_required_msg (Some stderr)), w1)
            else if py_in unavailable_marker stdout \<or> py_in unavailable_marker stderr
            then (Return (Error url video_id unavailable_msg (Some (stdout @ stderr))), w1)
            else if attempt = 1 then
              (case popen_communicate yt
                      (fallback_cmd url output_template cookies_file cookies_from_browser)
                      w1 of
                 (Raised e, w2) \<Rightarrow> on_exception url video_id retry_count attempt e w2
               | (Exited returncode2 stdout2 stderr2, w2) \<Rightarrow>
                   if returncode2 = 0 then (Return (Success url video_id), w2)
                   else retry_or_fail url video_id retry_count attempt stdout2 stderr2 w2)
            else retry_or_fail url video_id retry_count attempt stdout stderr w1
          else (Return (Success url video_id), w1))"

text \<open>
  \<open>for attempt in range(retry_count)\<close>, from \<open>attempt\<close> on. Falling off the end of
  the loop is the \<open>None\<close> a Python function returns without a \<open>return\<close>; an
  exception that leaves the body leaves the function.
\<close>

function attempts_from ::
  "tool \<Rightarrow> string \<Rightarrow> string \<Rightarrow> string \<Rightarrow> int \<Rightarrow> string option \<Rightarrow> string option \<Rightarrow>
   int \<Rightarrow> world \<Rightarrow> (py_error + download_result option) \<times> world" where
  "attempts_from yt url video_id output_template retry_count cookies_file
       cookies_from_browser attempt w =
     (if attempt < retry_count then
        (case attempt_body yt url video_id output_template retry_count cookies_file
                cookies_from_browser attempt w of
           (Return r, w') \<Rightarrow> (Inr (Some r), w')
         | (Continue, w') \<Rightarrow>
             attempts_from yt url video_id output_template retry_count cookies_file
               cookies_from_browser (attempt + 1) w'
         | (Raise e, w') \<Rightarrow> (Inl e, w'))
      else (Inr None, w))"
  by pat_completeness auto
termination
  by (relation "measure (\<lambda>(yt, url, vid, tmpl, retry_count, cf, cb, attempt, w).
                   nat (retry_count - attempt))") auto

declare attempts_from.simps [simp del]

definition known_extensions :: "string list" where
  "known_extensions = [''mp4'', ''mkv'', ''webm'']"

text \<open>The loop \<open>for ext in ['mp4', 'mkv', 'webm']\<close> with its \<open>os.path.exists\<close>.\<close>

definition output_exists :: "world \<Rightarrow> string \<Rightarrow> string \<Rightarrow> bool" where
  "output_exists w output_dir video_id =
     list_ex (\<lambda>ext. path_exists w (path_join output_dir (video_id @ ''.'' @ ext)))
       known_extensions"

definition download_video ::
  "tool \<Rightarrow> string \<Rightarrow> string \<Rightarrow> int \<Rightarrow> string option \<Rightarrow> string option \<Rightarrow> world \<Rightarrow>
   (py_error + download_result option) \<times> world" where
  "download_video yt url output_dir retry_count cookies_file cookies_from_browser w =
     (case extract_video_id_from_url url of
        Inl e \<Rightarrow> (Inl e, w)
      | Inr video_id \<Rightarrow>
          let output_template = path_join output_dir (video_id @ ''.%(ext)s'') in
          if output_exists w output_dir video_id
          then (Inr (Some (Already_exists url video_id)), w)
          else attempts_from yt url video_id output_template retry_count cookies_file
                 cookies_from_browser 0 w)"

subsection \<open>\<open>download_batch\<close>\<close>

text \<open>
  An entry of \<open>failed_urls\<close>: the \<open>url\<close>, \<open>result.get("error", "Unknown error")\<close> and
  \<open>result.get("details", "")\<close>.
\<close>

type_synonym failed_entry = "string \<times> string \<times> string"

fun failed_entry_of :: "string \<Rightarrow> download_result \<Rightarrow> failed_entry" where
  "failed_entry_of url (Error u v msg details) =
     (url, msg, (case details of None \<Rightarrow> [] | Some d \<Rightarrow> d))"
| "failed_entry_of url r = (url, ''Unknown error'', [])"

fun succeeded :: "download_result \<Rightarrow> bool" where
  "succeeded (Success u v) = True"
| "succeeded (Already_exists u v) = True"
| "succeeded (Error u v msg details) = False"

text \<open>
  The loop over the references to fetch, with the lists \<open>successful_urls\<close> and
  \<open>failed_urls\<close> it grows. \<open>download_video\<close> is called with its default
  \<open>retry_count=3\<close>; subscripting a result \<open>None\<close> would raise \<open>TypeError\<close>, and an
  exception that leaves a fetch leaves the loop.
\<close>

fun fetch_each ::
  "tool \<Rightarrow> string \<Rightarrow> string \<Rightarrow> string option \<Rightarrow> string option \<Rightarrow> string list \<Rightarrow>
   string list \<times> failed_entry list \<Rightarrow> world \<Rightarrow>
   (py_error + string list \<times> failed_entry list) \<times> world" where
  "fetch_each yt output_dir downloaded_file cookies_file cookies_from_browser [] acc w =
     (Inr acc, w)"
| "fetch_each yt output_dir downloaded_file cookies_file cookies_from_browser (url # rest)
       (successful_urls, failed_urls) w =
     (case download_video yt url output_dir 3 cookies_file cookies_from_browser w of
        (Inl e, w1) \<Rightarrow> (Inl e, w1)
      | (Inr None, w1) \<Rightarrow> (Inl TypeError, w1)
      | (Inr (Some result), w1) \<Rightarrow>
          if succeeded result
          then fetch_each yt output_dir downloaded_file cookies_file cookies_from_browser rest
                 (successful_urls @ [url], failed_urls)
                 (append_file downloaded_file (url @ [LF]) w1)
          else fetch_each yt output_dir downloaded_file cookies_file cookies_from_browser rest
                 (successful_urls, failed_urls @ [failed_entry_of url result]) w1)"

text \<open>
  With more than one worker the source runs the fetches in a thread pool and takes the
  results as they complete. The embedding has no interleaving of threads: it runs the
  fetches one after the other, in a completion order chosen by the parameter \<open>pick\<close>,
  which names the position, among the references still pending, of the one to complete
  next. \<open>ThreadPoolExecutor\<close> raises \<open>ValueError\<close> for \<open>max_workers <= 0\<close>.
\<close>

function completion_order :: "('a list \<Rightarrow> nat) \<Rightarrow> 'a list \<Rightarrow> 'a list" where
  "completion_order pick pending =
     (if pending = [] then []
      else let i = pick pending mod length pending
           in pending ! i # completion_order pick (take i pending @ drop (Suc i) pending))"
  by pat_completeness auto
termination
proof (relation "measure (\<lambda>(pick, pending). length pending)")
  fix pick :: "'a list \<Rightarrow> nat" and pending :: "'a list" and i
  assume "pending \<noteq> []" and "i = pick pending mod length pending"
  then have "i < length pending"
    by simp
  then show "((pick, take i pending @ drop (Suc i) pending), (pick, pending))
               \<in> measure (\<lambda>(pick, pending). length pending)"
    by simp
qed simp

declare completion_order.simps [simp del]

definition failed_line :: "failed_entry \<Rightarrow> string" where
  "failed_line failed = (case failed of (url, error, details) \<Rightarrow> url @ [TAB] @ error @ [LF])"

definition download_batch ::
  "tool \<Rightarrow> (string list \<Rightarrow> nat) \<Rightarrow> string list \<Rightarrow> string \<Rightarrow> string \<Rightarrow> int \<Rightarrow>
   string option \<Rightarrow> string option \<Rightarrow> world \<Rightarrow> (py_error + unit) \<times> world" where
  "download_batch yt pick urls output_dir downloaded_file max_workers cookies_file
       cookies_from_browser w =
     (let w0 = makedirs output_dir (w\<lparr>trace := trace w @ [Batch urls]\<rparr>) in
      case read_downloaded_urls downloaded_file w0 of
        Inl e \<Rightarrow> (Inl e, w0)
      | Inr downloaded_urls \<Rightarrow>
          let urls_to_download = filter (\<lambda>url. url \<notin> downloaded_urls) urls in
          if urls_to_download = [] then (Inr (), w0)
          else if max_workers \<noteq> 1 \<and> max_workers \<le> 0 then (Inl ValueError, w0)
          else
            (case fetch_each yt output_dir downloaded_file cookies_file cookies_from_browser
                    (if max_workers = 1 then urls_to_download
                     else completion_order pick urls_to_download)
                    ([], []) w0 of
               (Inl e, w1) \<Rightarrow> (Inl e, w1)
             | (Inr (successful_urls, failed_urls), w1) \<Rightarrow>
                 let failed_file = py_replace ''downloaded_'' ''failed_'' downloaded_file
                 in (Inr (), write_file failed_file (concat (map failed_line failed_urls)) w1)))"

subsection \<open>\<open>batch_download_from_file\<close>\<close>

text \<open>
  The number of batches, \<open>(len(urls_to_download) + batch_size - 1) // batch_size\<close>
  (Python's \<open>//\<close> rounds down, as \<open>div\<close> does), and the slice
  \<open>urls_to_download[start_idx:end_idx]\<close> of batch \<open>batch_num\<close>.
\<close>

definition total_batches :: "string list \<Rightarrow> int \<Rightarrow> int" where
  "total_batches urls_to_download batch_size =
     (int (length urls_to_download) + batch_size - 1) div batch_size"

definition batch_slice :: "string list \<Rightarrow> int \<Rightarrow> int \<Rightarrow> string list" where
  "batch_slice urls_to_download batch_size batch_num =
     (let start_idx = batch_num * batch_size;
          end_idx = min ((batch_num + 1) * batch_size) (int (length urls_to_download))
      in py_slice urls_to_download start_idx end_idx)"

text \<open>\<open>for batch_num in range(total_batches)\<close>, from \<open>batch_num\<close> on.\<close>

function batches_from ::
  "tool \<Rightarrow> (nat \<Rightarrow> nat) \<Rightarrow> (string list \<Rightarrow> nat) \<Rightarrow> string list \<Rightarrow> string \<Rightarrow> string \<Rightarrow>
   int \<Rightarrow> int \<Rightarrow> string option \<Rightarrow> string option \<Rightarrow> int \<Rightarrow> int \<Rightarrow> world \<Rightarrow>
   (py_error + unit) \<times> world" where
  "batches_from yt rnd pick urls_to_download output_dir downloaded_file batch_size
       max_workers cookies_file cookies_from_browser n_batches batch_num w =
     (if batch_num < n_batches then
        let batch_urls = batch_slice urls_to_download batch_size batch_num
        in case download_batch yt pick batch_urls output_dir downloaded_file max_workers
                  cookies_file cookies_from_browser w of
             (Inl e, w1) \<Rightarrow> (Inl e, w1)
           | (Inr u, w1) \<Rightarrow>
               (case randint rnd 5 60 w1 of
                  (sleep_time, w2) \<Rightarrow>
                    batches_from yt rnd pick urls_to_download output_dir downloaded_file
                      batch_size max_workers cookies_file cookies_from_browser n_batches
                      (batch_num + 1) (w2\<lparr>trace := trace w2 @ [Pace sleep_time]\<rparr>))
      else (Inr (), w))"
  by pat_completeness auto
termination
  by (relation "measure (\<lambda>(yt, rnd, pick, urls, od, df, bs, mw, cf, cb, total, batch_num, w).
                   nat (total - batch_num))") auto

declare batches_from.simps [simp del]

definition ledger_name :: "string \<Rightarrow> py_error + string" where
  "ledger_name url_file =
     (case py_split (basename url_file) ''.'' of
        [] \<Rightarrow> Inl IndexError
      | file_base # _ \<Rightarrow> Inr (''downloaded_'' @ file_base @ ''_urls.txt''))"

definition batch_download_from_file ::
  "tool \<Rightarrow> (nat \<Rightarrow> nat) \<Rightarrow> (string list \<Rightarrow> nat) \<Rightarrow> string \<Rightarrow> string \<Rightarrow> int \<Rightarrow> int \<Rightarrow>
   string option \<Rightarrow> string option \<Rightarrow> world \<Rightarrow> (py_error + unit) \<times> world" where
  "batch_download_from_file yt rnd pick url_file output_dir batch_size max_workers
       cookies_file cookies_from_browser w =
     (case ledger_name url_file of
        Inl e \<Rightarrow> (Inl e, w)
      | Inr downloaded_file \<Rightarrow>
          (case read_urls url_file w of
             Inl e \<Rightarrow> (Inl e, w)
           | Inr all_urls \<Rightarrow>
               (case read_downloaded_urls downloaded_file w of
                  Inl e \<Rightarrow> (Inl e, w)
                | Inr downloaded_urls \<Rightarrow>
                    let urls_to_download =
                          filter (\<lambda>url. url \<notin> downloaded_urls) all_urls
                    in if batch_size = 0 then (Inl ZeroDivisionError, w)
                       else
                         batches_from yt rnd pick urls_to_download output_dir
                           downloaded_file batch_size max_workers cookies_file
                           cookies_from_browser
                           (total_batches urls_to_download batch_size) 0 w)))"


section \<open>Vocabulary of the properties\<close>

text \<open>The argument vectors of the processes spawned, in order.\<close>

definition spawns :: "event list \<Rightarrow> string list list" where
  "spawns tr = concat (map (\<lambda>e. case e of Spawn cmd \<Rightarrow> [cmd] | _ \<Rightarrow> []) tr)"

text \<open>
  A process that fails with a generic error: a non-zero return code and neither marker in
  its output. \<open>captured\<close> is the text \<open>stdout + stderr\<close> of a process that exited.
\<close>

fun generic_failure :: "proc \<Rightarrow> bool" where
  "generic_failure (Exited returncode stdout stderr) =
     (returncode \<noteq> 0 \<and> \<not> py_in bot_marker stdout \<and> \<not> py_in bot_marker stderr
      \<and> \<not> py_in unavailable_marker stdout \<and> \<not> py_in unavailable_marker stderr)"
| "generic_failure (Raised e) = False"

fun captured :: "proc \<Rightarrow> string" where
  "captured (Exited returncode stdout stderr) = stdout @ stderr"
| "captured (Raised e) = []"

text \<open>
  The events of the run driver in a trace (the calls of \<open>download_batch\<close> and the pauses
  between them), the lists given to \<open>download_batch\<close>, and the trace of a driver that
  takes the chunks in order and pauses after each.
\<close>

fun driver_event :: "event \<Rightarrow> bool" where
  "driver_event (Batch urls) = True"
| "driver_event (Pace secs) = True"
| "driver_event (Spawn cmd) = False"
| "driver_event (Backoff base) = False"

definition driver_events :: "event list \<Rightarrow> event list" where
  "driver_events tr = filter driver_event tr"

definition batches :: "event list \<Rightarrow> string list list" where
  "batches tr = concat (map (\<lambda>e. case e of Batch urls \<Rightarrow> [urls] | _ \<Rightarrow> []) tr)"

definition paced :: "string list list \<Rightarrow> int list \<Rightarrow> event list" where
  "paced chunks secs = concat (map2 (\<lambda>chunk s. [Batch chunk, Pace s]) chunks secs)"

text \<open>
  The partition of a list into chunks of a fixed size, as the specification words it:
  the first \<open>n\<close> elements, then the chunks of the rest.
\<close>

function chunks_of :: "nat \<Rightarrow> 'a list \<Rightarrow> 'a list list" where
  "chunks_of n xs = (if n = 0 \<or> xs = [] then [] else take n xs # chunks_of n (drop n xs))"
  by pat_completeness auto
termination
  by (relation "measure (\<lambda>(n, xs). length xs)") auto

declare chunks_of.simps [simp del]

text \<open>The name of the failure file, as \<open>download_batch\<close> derives it from the ledger's.\<close>

definition failed_file_of :: "string \<Rightarrow> string" where
  "failed_file_of downloaded_file = py_replace ''downloaded_'' ''failed_'' downloaded_file"

text \<open>
  The lines of a text file as the specification speaks of them, without their line
  ends, and those of them that are not blank.
\<close>

definition text_lines :: "string \<Rightarrow> string list" where
  "text_lines content =
     map (\<lambda>line. if line \<noteq> [] \<and> last line = LF then butlast line else line)
       (file_lines [] content)"

definition non_blank_lines :: "string \<Rightarrow> string list" where
  "non_blank_lines content = filter (\<lambda>line. \<not> list_all py_isspace line) (text_lines content)"

text \<open>Some downloaders and worlds to run the program on.\<close>

definition always_fail :: tool where
  "always_fail = (\<lambda>tr fs cmd. (Exited 1 [] ''ERROR: unable to download'', fs))"

definition sign_in_tool :: tool where
  "sign_in_tool = (\<lambda>tr fs cmd. (Exited 1 [] ''ERROR: Sign in to confirm you're not a bot'', fs))"

definition unavailable_tool :: tool where
  "unavailable_tool = (\<lambda>tr fs cmd. (Exited 1 [] ''ERROR: Video unavailable'', fs))"

definition unavailable_sign_in_tool :: tool where
  "unavailable_sign_in_tool =
     (\<lambda>tr fs cmd. (Exited 1 ''Video unavailable'' ''Sign in to confirm you're not a bot'', fs))"

definition fallback_sign_in_tool :: tool where
  "fallback_sign_in_tool =
     (\<lambda>tr fs cmd. if ''bestvideo[ext=webm]'' \<in> set cmd
                   then (Exited 1 [] ''ERROR: Sign in to confirm you're not a bot'', fs)
                   else (Exited 1 [] ''ERROR: unable to download'', fs))"

definition w_empty :: world where
  "w_empty = \<lparr>files = Map.empty, dirs = {}, trace = [], draws = 0\<rparr>"

definition w_with_mp4 :: world where
  "w_with_mp4 = \<lparr>files = [''out/ABC.mp4'' \<mapsto> ''data''], dirs = {''out''}, trace = [], draws = 0\<rparr>"

definition ok_tool :: tool where
  "ok_tool = (\<lambda>tr fs cmd. (Exited 0 [] [], fs))"

definition w_one_url :: world where
  "w_one_url = \<lparr>files = [''urls.txt'' \<mapsto> ''ABC'' @ [LF]], dirs = {}, trace = [], draws = 0\<rparr>"

definition w_three_urls :: world where
  "w_three_urls =
     \<lparr>files = [''urls.txt'' \<mapsto> ''A'' @ [LF] @ ''B'' @ [LF] @ ''C'' @ [LF]], dirs = {},
      trace = [], draws = 0\<rparr>"

definition w_after_chunk :: world where
  "w_after_chunk =
     \<lparr>files = [''downloaded_train_urls.txt'' \<mapsto> ''ABC'' @ [LF],
               ''failed_train_urls.txt'' \<mapsto> ''XYZ'' @ [TAB] @ ''Failed after 3 attempts'' @ [LF]],
      dirs = {''out''}, trace = [], draws = 0\<rparr>"

definition w_padded_ledger :: world where
  "w_padded_ledger =
     \<lparr>files = [''downloaded_train_urls.txt'' \<mapsto> '' abc'' @ [LF]], dirs = {}, trace = [],
      draws = 0\<rparr>"

section \<open>The normalizer never raises\<close>

lemma py_split_from_nonempty: "py_split_from sep acc s \<noteq> []"
  by (induction sep acc s rule: py_split_from.induct) auto

lemma py_split_from_two:
  "sep \<noteq> [] \<Longrightarrow> py_in sep s \<Longrightarrow> \<exists>a b rest. py_split_from sep acc s = a # b # rest"
proof (induction sep acc s rule: py_split_from.induct)
  case (1 sep acc)
  then show ?case by simp
next
  case (2 sep acc c cs)
  show ?case
  proof (cases "prefix sep (c # cs)")
    case True
    obtain b rest where "py_split_from sep [] (drop (length sep) (c # cs)) = b # rest"
      using py_split_from_nonempty [of sep "[]" "drop (length sep) (c # cs)"]
      by (auto simp: neq_Nil_conv)
    with True 2(3) show ?thesis by simp
  next
    case False
    with 2 show ?thesis by simp
  qed
qed

lemma second_then_first_total:
  "sep \<noteq> [] \<Longrightarrow> py_in sep s \<Longrightarrow> \<exists>piece. second_then_first s sep stop = Inr piece"
proof -
  assume a: "sep \<noteq> []" "py_in sep s"
  obtain x part rest where p: "py_split s sep = x # part # rest"
    using py_split_from_two [OF a] unfolding py_split_def by blast
  obtain piece more where q: "py_split part stop = piece # more"
    using py_split_from_nonempty [of stop "[]" part] unfolding py_split_def
    by (auto simp: neq_Nil_conv)
  show ?thesis
    by (simp add: second_then_first_def p q)
qed

lemma extract_video_id_total: "\<exists>video_id. extract_video_id_from_url url = Inr video_id"
  using second_then_first_total [of long_marker url "''&''"]
        second_then_first_total [of short_marker url "''?''"]
  by (auto simp: extract_video_id_from_url_def long_marker_def short_marker_def)

section \<open>The retry loop\<close>

lemma popen_eq:
  "yt (trace w) (files w) cmd = (r, fs) \<Longrightarrow>
   popen_communicate yt cmd w = (r, w\<lparr>files := fs, trace := trace w @ [Spawn cmd]\<rparr>)"
  by (simp add: popen_communicate_def)

lemma trace_popen [simp]:
  "trace (snd (popen_communicate yt cmd w)) = trace w @ [Spawn cmd]"
  by (simp add: popen_communicate_def split: prod.splits)

lemma sleep_backoff_ok:
  "attempt < 34 \<Longrightarrow>
   sleep_backoff attempt w
     = (Inr (), w\<lparr>draws := Suc (draws w), trace := trace w @ [Backoff (2 ^ nat attempt)]\<rparr>)"
  by (simp add: sleep_backoff_def Let_def)


lemma attempt_body_continue:
  "attempt_body yt url vid tmpl retry_count cf cb attempt w = (Continue, w') \<Longrightarrow>
   attempt < retry_count - 1"
  by (auto simp: attempt_body_def on_exception_def retry_or_fail_def
           split: prod.splits proc.splits if_splits sum.splits)

lemma on_exception_no_raise:
  "retry_count \<le> 35 \<Longrightarrow> on_exception url vid retry_count attempt e w \<noteq> (Raise err, w')"
  by (auto simp: on_exception_def sleep_backoff_ok)

lemma retry_or_fail_no_raise:
  "retry_count \<le> 35 \<Longrightarrow>
   retry_or_fail url vid retry_count attempt out err w \<noteq> (Raise e, w')"
  by (auto simp: retry_or_fail_def sleep_backoff_ok)

lemma attempt_body_no_raise:
  "retry_count \<le> 35 \<Longrightarrow>
   attempt_body yt url vid tmpl retry_count cf cb attempt w \<noteq> (Raise e, w')"
  by (auto simp: attempt_body_def on_exception_no_raise retry_or_fail_no_raise
           split: prod.splits proc.splits)

lemma attempts_from_some:
  "attempt < retry_count \<Longrightarrow> retry_count \<le> 35 \<Longrightarrow>
   \<exists>r w'. attempts_from yt url vid tmpl retry_count cf cb attempt w = (Inr (Some r), w')"
proof (induction yt url vid tmpl retry_count cf cb attempt w rule: attempts_from.induct)
  case (1 yt url vid tmpl retry_count cf cb attempt w)
  obtain s w1 where b: "attempt_body yt url vid tmpl retry_count cf cb attempt w = (s, w1)"
    by (cases "attempt_body yt url vid tmpl retry_count cf cb attempt w")
  show ?case
  proof (cases s)
    case (Return r)
    with b 1(2) show ?thesis by (simp add: attempts_from.simps)
  next
    case Continue
    with b have "attempt + 1 < retry_count"
      using attempt_body_continue by fastforce
    with 1(1) [OF 1(2) b [symmetric, unfolded Continue] _ _ 1(3)] b Continue 1(2) show ?thesis
      by (simp add: attempts_from.simps [of _ _ _ _ _ _ _ attempt])
  next
    case (Raise e)
    with b attempt_body_no_raise [OF 1(3)] show ?thesis by blast
  qed
qed

lemma attempt_body_auth:
  assumes "yt (trace w) (files w) (primary_cmd url tmpl cf cb) = (Exited rc out err, fs)"
      and "rc \<noteq> 0" and "py_in bot_marker out \<or> py_in bot_marker err"
      and "\<not> truthy cf" and "\<not> truthy cb"
  shows "attempt_body yt url vid tmpl retry_count cf cb attempt w
           = (Return (Error url vid auth_required_msg (Some err)),
              w\<lparr>files := fs, trace := trace w @ [Spawn (primary_cmd url tmpl cf cb)]\<rparr>)"
  using assms by (auto simp: attempt_body_def popen_eq)

lemma attempt_body_unavailable:
  assumes "yt (trace w) (files w) (primary_cmd url tmpl cf cb) = (Exited rc out err, fs)"
      and "rc \<noteq> 0"
      and "py_in unavailable_marker out \<or> py_in unavailable_marker err"
      and "\<not> ((py_in bot_marker err \<or> py_in bot_marker out) \<and> \<not> (truthy cf \<or> truthy cb))"
  shows "attempt_body yt url vid tmpl retry_count cf cb attempt w
           = (Return (Error url vid unavailable_msg (Some (out @ err))),
              w\<lparr>files := fs, trace := trace w @ [Spawn (primary_cmd url tmpl cf cb)]\<rparr>)"
  using assms by (auto simp: attempt_body_def popen_eq)

lemma attempt_body_no_auth_error:
  assumes "truthy cf \<or> truthy cb"
      and "attempt_body yt url vid tmpl retry_count cf cb attempt w = (Return r, w')"
  shows "r \<noteq> Error u v auth_required_msg (Some d)"
  using assms
  by (auto simp: attempt_body_def on_exception_def retry_or_fail_def failed_after_msg_def
                 auth_required_msg_def unavailable_msg_def
           split: prod.splits proc.splits if_splits sum.splits)

lemma attempts_from_no_auth_error:
  "truthy cf \<or> truthy cb \<Longrightarrow>
   fst (attempts_from yt url vid tmpl retry_count cf cb attempt w)
     \<noteq> Inr (Some (Error u v auth_required_msg (Some d)))"
proof (induction yt url vid tmpl retry_count cf cb attempt w rule: attempts_from.induct)
  case (1 yt url vid tmpl retry_count cf cb attempt w)
  obtain s w1 where b: "attempt_body yt url vid tmpl retry_count cf cb attempt w = (s, w1)"
    by (cases "attempt_body yt url vid tmpl retry_count cf cb attempt w")
  show ?case
  proof (cases "attempt < retry_count")
    case False
    then show ?thesis by (simp add: attempts_from.simps)
  next
    case True
    show ?thesis
    proof (cases s)
      case (Return r)
      with b True attempt_body_no_auth_error [OF 1(2), of yt url vid tmpl retry_count attempt w r w1]
      show ?thesis by (simp add: attempts_from.simps)
    next
      case Continue
      with 1(1) [OF True b [symmetric, unfolded Continue] _ 1(2)] b True show ?thesis
        by (simp add: attempts_from.simps [of _ _ _ _ _ _ _ attempt])
    next
      case (Raise e)
      with b True show ?thesis
        by (simp add: attempts_from.simps [of _ _ _ _ _ _ _ attempt])
    qed
  qed
qed

lemma download_video_no_auth_error:
  "truthy cf \<or> truthy cb \<Longrightarrow>
   fst (download_video yt url output_dir retry_count cf cb w)
     \<noteq> Inr (Some (Error u v auth_required_msg (Some d)))"
  using attempts_from_no_auth_error [of cf cb]
  by (simp add: download_video_def Let_def split: sum.splits)

lemma attempt_body_generic:
  assumes g: "\<forall>tr fs cmd. generic_failure (fst (yt tr fs cmd))"
  shows "attempt_body yt url vid tmpl retry_count cf cb attempt w =
     (let (r1, w1) = popen_communicate yt (primary_cmd url tmpl cf cb) w in
      if attempt = 1 then
        (let (r2, w2) = popen_communicate yt (fallback_cmd url tmpl cf cb) w1 in
         if attempt < retry_count - 1
         then (case sleep_backoff attempt w2 of
                 (Inl err, w3) \<Rightarrow>
                   on_exception url vid retry_count attempt (overflow_str attempt) w3
               | (Inr u, w3) \<Rightarrow> (Continue, w3))
         else (Return (Error url vid (failed_after_msg retry_count) (Some (captured r2))), w2))
      else if attempt < retry_count - 1
      then (case sleep_backoff attempt w1 of
              (Inl err, w3) \<Rightarrow>
                on_exception url vid retry_count attempt (overflow_str attempt) w3
            | (Inr u, w3) \<Rightarrow> (Continue, w3))
      else (Return (Error url vid (failed_after_msg retry_count) (Some (captured r1))), w1))"
proof -
  obtain r1 fs1 where y1: "yt (trace w) (files w) (primary_cmd url tmpl cf cb) = (r1, fs1)"
    by (cases "yt (trace w) (files w) (primary_cmd url tmpl cf cb)")
  define w1 where "w1 = w\<lparr>files := fs1, trace := trace w @ [Spawn (primary_cmd url tmpl cf cb)]\<rparr>"
  obtain r2 fs2 where y2: "yt (trace w1) (files w1) (fallback_cmd url tmpl cf cb) = (r2, fs2)"
    by (cases "yt (trace w1) (files w1) (fallback_cmd url tmpl cf cb)")
  have g1: "generic_failure r1" using g y1 by (metis fst_conv)
  have g2: "generic_failure r2" using g y2 by (metis fst_conv)
  obtain rc1 out1 err1 where r1: "r1 = Exited rc1 out1 err1" using g1 by (cases r1) auto
  obtain rc2 out2 err2 where r2: "r2 = Exited rc2 out2 err2" using g2 by (cases r2) auto
  have p1: "popen_communicate yt (primary_cmd url tmpl cf cb) w = (r1, w1)"
    by (simp add: popen_communicate_def y1 w1_def)
  have p2: "popen_communicate yt (fallback_cmd url tmpl cf cb) w1 = (r2, w1\<lparr>files := fs2,
              trace := trace w1 @ [Spawn (fallback_cmd url tmpl cf cb)]\<rparr>)"
    by (simp add: popen_communicate_def y2)
  show ?thesis
  proof (cases "attempt = 1")
    case True
    with g1 g2 show ?thesis
      by (auto simp: attempt_body_def p1 p2 r1 r2 retry_or_fail_def
               split: prod.splits sum.splits)
  next
    case False
    with g1 g2 show ?thesis
      by (auto simp: attempt_body_def p1 p2 r1 r2 retry_or_fail_def
               split: prod.splits sum.splits)
  qed
qed


lemma always_fail_generic: "\<forall>tr fs cmd. generic_failure (fst (always_fail tr fs cmd))"
  by (simp add: always_fail_def bot_marker_def unavailable_marker_def)

text \<open>The equations that evaluate a fetch on given inputs.\<close>

lemmas run_defs =
  download_video_def extract_video_id_from_url_def long_marker_def short_marker_def
  second_then_first_def py_split_def output_exists_def known_extensions_def path_exists_def
  path_join_def attempts_from.simps attempt_body_def popen_communicate_def primary_cmd_def
  fallback_cmd_def bot_marker_def unavailable_marker_def retry_or_fail_def on_exception_def
  sleep_backoff_def overflow_str_def failed_after_msg_def str_int_def str_nat.simps auth_required_msg_def
  unavailable_msg_def Let_def

lemma extract_ABC: "extract_video_id_from_url ''ABC'' = Inr ''ABC''"
  by (simp add: extract_video_id_from_url_def long_marker_def short_marker_def)

lemma no_output_in_w_empty: "\<not> output_exists w_empty ''out'' ''ABC''"
  by (simp add: output_exists_def known_extensions_def path_exists_def w_empty_def)

section \<open>The batch scheduler and the run driver keep the driver's events\<close>

lemma driver_events_append [simp]:
  "driver_events (xs @ ys) = driver_events xs @ driver_events ys"
  by (simp add: driver_events_def)

lemma driver_events_simps [simp]:
  "driver_events [] = []"
  "driver_events (Spawn cmd # tr) = driver_events tr"
  "driver_events (Backoff b # tr) = driver_events tr"
  "driver_events (Batch urls # tr) = Batch urls # driver_events tr"
  "driver_events (Pace s # tr) = Pace s # driver_events tr"
  by (simp_all add: driver_events_def)

lemma popen_driver_events:
  "popen_communicate yt cmd w = (r, w') \<Longrightarrow>
   driver_events (trace w') = driver_events (trace w)"
  by (auto simp: popen_communicate_def split: prod.splits)

lemma attempt_body_driver_events:
  "attempt_body yt url vid tmpl retry_count cf cb attempt w = (s, w') \<Longrightarrow>
   driver_events (trace w') = driver_events (trace w)"
  by (auto simp: attempt_body_def on_exception_def retry_or_fail_def sleep_backoff_def Let_def
           split: prod.splits proc.splits if_splits sum.splits dest!: popen_driver_events)

lemma attempts_from_driver_events:
  "attempts_from yt url vid tmpl retry_count cf cb attempt w = (r, w') \<Longrightarrow>
   driver_events (trace w') = driver_events (trace w)"
proof (induction yt url vid tmpl retry_count cf cb attempt w rule: attempts_from.induct)
  case (1 yt url vid tmpl retry_count cf cb attempt w)
  obtain s w1 where b: "attempt_body yt url vid tmpl retry_count cf cb attempt w = (s, w1)"
    by (cases "attempt_body yt url vid tmpl retry_count cf cb attempt w")
  note d = attempt_body_driver_events [OF b]
  show ?case
  proof (cases "attempt < retry_count")
    case False
    with 1(2) show ?thesis by (simp add: attempts_from.simps)
  next
    case True
    show ?thesis
    proof (cases s)
      case (Return res)
      with b True 1(2) d show ?thesis
        by (simp add: attempts_from.simps [of _ _ _ _ _ _ _ attempt])
    next
      case Continue
      with b True 1(2)
      have "attempts_from yt url vid tmpl retry_count cf cb (attempt + 1) w1 = (r, w')"
        by (simp add: attempts_from.simps [of _ _ _ _ _ _ _ attempt])
      from 1(1) [OF True b [symmetric, unfolded Continue] _ this] d show ?thesis
        by simp
    next
      case (Raise e)
      with b True 1(2) d show ?thesis
        by (simp add: attempts_from.simps [of _ _ _ _ _ _ _ attempt])
    qed
  qed
qed

lemma download_video_driver_events:
  assumes "download_video yt url output_dir retry_count cf cb w = (r, w')"
  shows "driver_events (trace w') = driver_events (trace w)"
proof (cases "extract_video_id_from_url url")
  case (Inl e)
  with assms show ?thesis by (simp add: download_video_def)
next
  case (Inr vid)
  show ?thesis
  proof (cases "output_exists w output_dir vid")
    case True
    with Inr assms show ?thesis by (simp add: download_video_def)
  next
    case False
    obtain x w1 where
      a: "attempts_from yt url vid (path_join output_dir (vid @ ''.%(ext)s''))
            retry_count cf cb 0 w = (x, w1)"
      by (cases "attempts_from yt url vid (path_join output_dir (vid @ ''.%(ext)s''))
                   retry_count cf cb 0 w")
    with Inr False assms have "w' = w1"
      by (simp add: download_video_def Let_def)
    with attempts_from_driver_events [OF a] show ?thesis
      by simp
  qed
qed

lemma download_video_default_some:
  assumes "download_video yt url output_dir 3 cf cb w = (r, w')"
  shows "\<exists>res. r = Inr (Some res)"
proof -
  obtain vid where e: "extract_video_id_from_url url = Inr vid"
    using extract_video_id_total by blast
  show ?thesis
  proof (cases "output_exists w output_dir vid")
    case True
    with e assms show ?thesis by (auto simp: download_video_def)
  next
    case False
    obtain x w1 where
      a: "attempts_from yt url vid (path_join output_dir (vid @ ''.%(ext)s''))
            3 cf cb 0 w = (Inr (Some x), w1)"
      using attempts_from_some [of 0 3] by force
    with e False assms show ?thesis
      by (auto simp: download_video_def Let_def)
  qed
qed

lemma fetch_each_driver_events:
  "fetch_each yt output_dir downloaded_file cf cb urls acc w = (r, w') \<Longrightarrow>
   driver_events (trace w') = driver_events (trace w)"
proof (induction urls arbitrary: acc w)
  case Nil
  then show ?case by simp
next
  case (Cons url rest)
  obtain successful_urls failed_urls where acc: "acc = (successful_urls, failed_urls)"
    by (cases acc)
  obtain x w1 where dv: "download_video yt url output_dir 3 cf cb w = (x, w1)"
    by (cases "download_video yt url output_dir 3 cf cb w")
  note d = download_video_driver_events [OF dv]
  from download_video_default_some [OF dv] obtain res where x: "x = Inr (Some res)"
    by blast
  show ?case
  proof (cases "succeeded res")
    case True
    with Cons.prems dv x acc
    have "fetch_each yt output_dir downloaded_file cf cb rest
            (successful_urls @ [url], failed_urls)
            (append_file downloaded_file (url @ [LF]) w1) = (r, w')"
      by simp
    from Cons.IH [OF this] d show ?thesis
      by (simp add: append_file_def)
  next
    case False
    with Cons.prems dv x acc
    have "fetch_each yt output_dir downloaded_file cf cb rest
            (successful_urls, failed_urls @ [failed_entry_of url res]) w1 = (r, w')"
      by simp
    from Cons.IH [OF this] d show ?thesis
      by simp
  qed
qed

lemma fetch_each_total:
  "\<exists>acc' w'. fetch_each yt output_dir downloaded_file cf cb urls acc w = (Inr acc', w')"
proof (induction urls arbitrary: acc w)
  case Nil
  then show ?case by simp
next
  case (Cons url rest)
  obtain successful_urls failed_urls where acc: "acc = (successful_urls, failed_urls)"
    by (cases acc)
  obtain x w1 where dv: "download_video yt url output_dir 3 cf cb w = (x, w1)"
    by (cases "download_video yt url output_dir 3 cf cb w")
  from download_video_default_some [OF dv] obtain res where x: "x = Inr (Some res)"
    by blast
  show ?case
    using Cons.IH dv x acc by (cases "succeeded res") simp_all
qed

lemma download_batch_driver_events:
  assumes "download_batch yt pick urls output_dir downloaded_file max_workers cf cb w
             = (r, w')"
  shows "driver_events (trace w') = driver_events (trace w) @ [Batch urls]"
proof -
  define w0 where "w0 = makedirs output_dir (w\<lparr>trace := trace w @ [Batch urls]\<rparr>)"
  have t0: "driver_events (trace w0) = driver_events (trace w) @ [Batch urls]"
    by (simp add: w0_def makedirs_def)
  show ?thesis
  proof (cases "read_downloaded_urls downloaded_file w0")
    case (Inl e)
    with assms t0 show ?thesis
      by (simp add: download_batch_def Let_def w0_def [symmetric])
  next
    case (Inr ledger)
    define todo where "todo = filter (\<lambda>url. url \<notin> ledger) urls"
    define sched where
      "sched = (if max_workers = 1 then todo else completion_order pick todo)"
    obtain x w1 where
      f: "fetch_each yt output_dir downloaded_file cf cb sched ([], []) w0 = (x, w1)"
      by (cases "fetch_each yt output_dir downloaded_file cf cb sched ([], []) w0")
    note d = fetch_each_driver_events [OF f]
    from assms Inr f t0 d show ?thesis
      by (auto simp: download_batch_def Let_def w0_def [symmetric] todo_def [symmetric]
            sched_def [symmetric] write_file_def split: if_splits sum.splits prod.splits)
  qed
qed

lemma randint_range:
  "randint rnd 5 60 w = (s, w') \<Longrightarrow> 5 \<le> s \<and> s \<le> 60 \<and> trace w' = trace w"
proof -
  assume a: "randint rnd 5 60 w = (s, w')"
  have "rnd (draws w) mod 56 < 56" by simp
  with a show ?thesis by (auto simp: randint_def)
qed

lemma batches_from_events:
  assumes "batches_from yt rnd pick urls od df bs mw cf cb tb k w = (Inr u, w')"
      and "0 \<le> k"
  shows "\<exists>secs. length secs = nat tb - nat k \<and> (\<forall>s\<in>set secs. 5 \<le> s \<and> s \<le> 60)
           \<and> driver_events (trace w')
               = driver_events (trace w)
                 @ concat (map2 (\<lambda>i s. [Batch (batch_slice urls bs (int i)), Pace s])
                            [nat k..<nat tb] secs)"
  using assms
proof (induction yt rnd pick urls od df bs mw cf cb tb k w rule: batches_from.induct)
  case (1 yt rnd pick urls od df bs mw cf cb tb k w)
  show ?case
  proof (cases "k < tb")
    case False
    with 1(2) have "w' = w"
      by (simp add: batches_from.simps)
    with False show ?thesis by simp
  next
    case True
    define chunk where "chunk = batch_slice urls bs k"
    obtain x w1 where db: "download_batch yt pick chunk od df mw cf cb w = (x, w1)"
      by (cases "download_batch yt pick chunk od df mw cf cb w")
    obtain s w2 where ri: "randint rnd 5 60 w1 = (s, w2)"
      by (cases "randint rnd 5 60 w1")
    from 1(2) True db have x: "x = Inr ()"
      by (simp add: batches_from.simps [of _ _ _ _ _ _ _ _ _ _ _ k] Let_def
            chunk_def split: sum.splits)
    from 1(2) True db ri x
    have rec: "batches_from yt rnd pick urls od df bs mw cf cb tb (k + 1)
                 (w2\<lparr>trace := trace w2 @ [Pace s]\<rparr>) = (Inr u, w')"
      by (simp add: batches_from.simps [of _ _ _ _ _ _ _ _ _ _ _ k] Let_def
            chunk_def)
    have "0 \<le> k + 1" using 1(3) by simp
    from 1(1) [OF True refl db [unfolded chunk_def, symmetric] x ri [symmetric] rec this]
    obtain secs where
      l: "length secs = nat tb - nat (k + 1)" and
      b: "\<forall>s\<in>set secs. 5 \<le> s \<and> s \<le> 60" and
      t: "driver_events (trace w')
            = driver_events (trace (w2\<lparr>trace := trace w2 @ [Pace s]\<rparr>))
              @ concat (map2 (\<lambda>i s. [Batch (batch_slice urls bs (int i)), Pace s])
                         [nat (k + 1)..<nat tb] secs)"
      by blast
    have idx: "[nat k..<nat tb] = nat k # [nat (k + 1)..<nat tb]"
      using True 1(3) by (simp add: upt_conv_Cons nat_add_distrib)
    have tr: "driver_events (trace (w2\<lparr>trace := trace w2 @ [Pace s]\<rparr>))
                = driver_events (trace w) @ [Batch chunk, Pace s]"
      using download_batch_driver_events [OF db] randint_range [OF ri] by simp
    have "length (s # secs) = nat tb - nat k"
      using l True 1(3) by (simp add: nat_add_distrib)
    moreover have "\<forall>s'\<in>set (s # secs). 5 \<le> s' \<and> s' \<le> 60"
      using b randint_range [OF ri] by simp
    moreover have "driver_events (trace w')
               = driver_events (trace w)
                 @ concat (map2 (\<lambda>i s. [Batch (batch_slice urls bs (int i)), Pace s])
                            [nat k..<nat tb] (s # secs))"
      using t tr idx 1(3) by (simp add: chunk_def)
    ultimately show ?thesis by blast
  qed
qed

section \<open>The slices of the driver are the chunks of the list\<close>

lemma take_min_length: "take (min b (length ys)) ys = take b ys"
  by (simp add: min_def)

lemma slice_index_nat: "slice_index (int n) (int x) = int (min x n)"
  by (simp add: slice_index_def)

lemma batch_slice_take_drop:
  assumes "0 < bs"
  shows "batch_slice urls bs (int i) = take (nat bs) (drop (i * nat bs) urls)"
proof -
  define n where "n = length urls"
  define b where "b = nat bs"
  define x where "x = i * b"
  have bs: "bs = int b" using assms by (simp add: b_def)
  have x: "int i * bs = int x"
    by (simp add: x_def bs)
  have y: "(int i + 1) * bs = int (x + b)"
    by (simp add: x_def bs algebra_simps)
  have "batch_slice urls bs (int i)
          = take (nat (slice_index (int n) (int (min (x + b) n)) - slice_index (int n) (int x)))
              (drop (nat (slice_index (int n) (int x))) urls)"
    unfolding batch_slice_def py_slice_def Let_def x y n_def [symmetric]
    by (simp only: of_nat_min)
  also have "\<dots> = take (min (min (x + b) n) n - min x n) (drop (min x n) urls)"
    unfolding slice_index_nat by (simp del: of_nat_min of_nat_add flip: of_nat_diff)
  also have "\<dots> = take b (drop x urls)"
  proof (cases "x \<le> n")
    case True
    then have "min (min (x + b) n) n - min x n = min b (length (drop x urls))"
      by (auto simp: min_def n_def)
    with True show ?thesis
      using take_min_length [of b "drop x urls"] by (simp add: min_absorb1)
  next
    case False
    then show ?thesis by (simp add: n_def min_def)
  qed
  finally show ?thesis by (simp add: x_def b_def)
qed

lemma chunks_of_indices:
  "0 < b \<Longrightarrow>
   map (\<lambda>i. take b (drop (i * b) xs)) [0..<(length xs + b - 1) div b] = chunks_of b xs"
proof (induction b xs rule: chunks_of.induct)
  case (1 n xs)
  show ?case
  proof (cases "xs = []")
    case True
    with 1(2) show ?thesis by (simp add: chunks_of.simps)
  next
    case False
    define m where "m = (length (drop n xs) + n - 1) div n"
    have pos: "0 < length xs" using False by simp
    have m: "(length xs + n - 1) div n = Suc m"
    proof (cases "n \<le> length xs")
      case True
      then have "length xs + n - 1 = (length xs - n + n - 1) + n"
        using 1(2) by simp
      then have "(length xs + n - 1) div n = (length xs - n + n - 1) div n + 1"
        using 1(2) by (simp only: div_add_self2)
      then show ?thesis
        by (simp add: m_def)
    next
      case False
      with pos 1(2) have "n \<le> length xs + n - 1" "length xs + n - 1 < 2 * n"
        by linarith+
      then have "(length xs + n - 1) div n = 1"
        by (intro div_nat_eqI) simp_all
      with False show ?thesis by (simp add: m_def)
    qed
    have ih: "map (\<lambda>i. take n (drop (i * n) (drop n xs))) [0..<m] = chunks_of n (drop n xs)"
      using 1(1) False 1(2) by (simp add: m_def)
    have "map (\<lambda>i. take n (drop (i * n) xs)) [0..<Suc m]
            = take n xs # map (\<lambda>i. take n (drop (i * n) (drop n xs))) [0..<m]"
      by (simp add: upt_conv_Cons map_Suc_upt [symmetric] add.commute del: upt_Suc)
    with ih m False 1(2) show ?thesis
      by (simp add: chunks_of.simps [of n xs])
  qed
qed

lemma slices_are_chunks:
  assumes "0 < bs"
  shows "map (\<lambda>i. batch_slice urls bs (int i))
           [0..<nat (total_batches urls bs)]
         = chunks_of (nat bs) urls"
proof -
  define b where "b = nat bs"
  have bs: "bs = int b" and b: "0 < b" using assms by (simp_all add: b_def)
  have "int (length urls) + bs - 1 = int (length urls + b - 1)"
    using b by (simp add: bs)
  then have "total_batches urls bs = int ((length urls + b - 1) div b)"
    unfolding total_batches_def by (simp only: bs zdiv_int)
  then have "nat (total_batches urls bs) = (length urls + b - 1) div b"
    by simp
  with chunks_of_indices [OF b, of urls] show ?thesis
    by (simp add: batch_slice_take_drop [OF assms] b_def)
qed

lemma concat_chunks_of: "0 < n \<Longrightarrow> concat (chunks_of n xs) = xs"
  by (induction n xs rule: chunks_of.induct) (simp add: chunks_of.simps)

lemma chunks_of_120_50:
  "length xs = 120 \<Longrightarrow> map length (chunks_of 50 xs) = [50, 50, 20]"
proof -
  assume l: "length xs = 120"
  then have a: "xs \<noteq> []" "drop 50 xs \<noteq> []" "drop 100 xs \<noteq> []"
    by auto
  have d: "drop 50 (drop 100 xs) = []" using l by simp
  show ?thesis
    using a l
    by (simp add: chunks_of.simps [of 50 xs] chunks_of.simps [of 50 "drop 50 xs"]
          chunks_of.simps [of 50 "drop 100 xs"] chunks_of.simps [of 50 "[]"])
qed

lemma batches_driver_events: "batches (driver_events tr) = batches tr"
proof (induction tr)
  case Nil
  then show ?case by (simp add: batches_def)
next
  case (Cons e tr)
  then show ?case by (cases e) (simp_all add: batches_def)
qed

lemma batches_append: "batches (xs @ ys) = batches xs @ batches ys"
  by (simp add: batches_def)

lemma batches_paced: "length secs = length chunks \<Longrightarrow> batches (paced chunks secs) = chunks"
proof (induction chunks arbitrary: secs)
  case Nil
  then show ?case by (simp add: batches_def paced_def)
next
  case (Cons c chunks)
  then obtain s rest where "secs = s # rest" by (cases secs) auto
  with Cons show ?case by (simp add: batches_def paced_def)
qed

lemma driver_run:
  assumes n: "ledger_name url_file = Inr downloaded_file"
      and r: "read_urls url_file w = Inr all_urls"
      and l: "read_downloaded_urls downloaded_file w = Inr ledger"
      and b: "0 < batch_size"
      and run: "batch_download_from_file yt rnd pick url_file output_dir batch_size
                  max_workers cf cb w = (Inr u, w')"
  shows "\<exists>secs. length secs
                  = length (chunks_of (nat batch_size) (filter (\<lambda>url. url \<notin> ledger) all_urls))
           \<and> (\<forall>s\<in>set secs. 5 \<le> s \<and> s \<le> 60)
           \<and> driver_events (trace w')
               = driver_events (trace w)
                 @ paced (chunks_of (nat batch_size) (filter (\<lambda>url. url \<notin> ledger) all_urls))
                     secs"
proof -
  define todo where "todo = filter (\<lambda>url. url \<notin> ledger) all_urls"
  define tb where "tb = total_batches todo batch_size"
  from run n r l b
  have "batches_from yt rnd pick todo output_dir downloaded_file batch_size max_workers
          cf cb tb 0 w = (Inr u, w')"
    by (simp add: batch_download_from_file_def Let_def todo_def tb_def)
  from batches_from_events [OF this]
  obtain secs where
    len: "length secs = nat tb - nat 0" and
    rng: "\<forall>s\<in>set secs. 5 \<le> s \<and> s \<le> 60" and
    tr: "driver_events (trace w')
           = driver_events (trace w)
             @ concat (map2 (\<lambda>i s. [Batch (batch_slice todo batch_size (int i)), Pace s])
                        [nat 0..<nat tb] secs)"
    by auto
  have ch: "map (\<lambda>i. batch_slice todo batch_size (int i)) [0..<nat tb]
              = chunks_of (nat batch_size) todo"
    unfolding tb_def by (rule slices_are_chunks [OF b])
  have "concat (map2 (\<lambda>i s. [Batch (batch_slice todo batch_size (int i)), Pace s])
                  [0..<nat tb] secs)
          = paced (map (\<lambda>i. batch_slice todo batch_size (int i)) [0..<nat tb]) secs"
    by (simp add: paced_def zip_map1 case_prod_unfold comp_def)
  with tr ch have "driver_events (trace w')
                     = driver_events (trace w) @ paced (chunks_of (nat batch_size) todo) secs"
    by simp
  moreover have "length secs = length (chunks_of (nat batch_size) todo)"
    using len ch [symmetric] by simp
  ultimately show ?thesis
    using rng unfolding todo_def by blast
qed

text \<open>The equations that evaluate a run of the driver on given inputs.\<close>

lemmas driver_defs =
  batch_download_from_file_def ledger_name_def basename_def py_split_def read_urls_def
  open_read_def read_downloaded_urls_def path_exists_def stripped_lines_def py_strip_def
  py_isspace_def LF_def CR_def TAB_def batches_from.simps py_slice_def slice_index_def
  total_batches_def batch_slice_def download_batch_def makedirs_def write_file_def
  append_file_def failed_line_def
  randint_def completion_order.simps Let_def

lemma three_urls_facts:
  "ledger_name ''urls.txt'' = Inr ''downloaded_urls_urls.txt''"
  "read_urls ''urls.txt'' w_three_urls = Inr [''A'', ''B'', ''C'']"
  "read_downloaded_urls ''downloaded_urls_urls.txt'' w_three_urls = Inr {}"
  by (simp_all add: driver_defs w_three_urls_def)

lemma three_urls_chunks:
  "chunks_of (nat 2) (filter (\<lambda>url. url \<notin> {}) [''A'', ''B'', ''C'']) = [[''A'', ''B''], [''C'']]"
  by (simp add: chunks_of.simps)

lemma three_urls_run:
  "fst (batch_download_from_file ok_tool (\<lambda>k. k) (\<lambda>pending. 0) ''urls.txt'' ''out'' 2 1
          None None w_three_urls) = Inr ()"
  by (simp add: driver_defs run_defs ok_tool_def w_three_urls_def)

section \<open>The failure list of a chunk\<close>

lemma read_downloaded_urls_trace [simp]:
  "read_downloaded_urls p (w\<lparr>trace := t\<rparr>) = read_downloaded_urls p w"
  by (simp add: read_downloaded_urls_def path_exists_def open_read_def)

lemma read_downloaded_urls_makedirs_trace:
  "read_downloaded_urls p (makedirs d (w\<lparr>trace := t\<rparr>)) = read_downloaded_urls p (makedirs d w)"
proof -
  have "makedirs d (w\<lparr>trace := t\<rparr>) = (makedirs d w)\<lparr>trace := t\<rparr>"
    by (simp add: makedirs_def)
  then show ?thesis by simp
qed

lemma set_completion_order: "set (completion_order pick xs) \<subseteq> set xs"
proof (induction pick xs rule: completion_order.induct)
  case (1 pick pending)
  show ?case
  proof (cases "pending = []")
    case True
    then show ?thesis by (simp add: completion_order.simps)
  next
    case False
    define i where "i = pick pending mod length pending"
    have i: "i < length pending" using False by (simp add: i_def)
    have "set (completion_order pick (take i pending @ drop (Suc i) pending))
            \<subseteq> set (take i pending @ drop (Suc i) pending)"
      using 1 [OF False i_def] .
    also have "\<dots> \<subseteq> set pending"
      using set_take_subset [of i pending] set_drop_subset [of "Suc i" pending] by auto
    finally show ?thesis
      using False i by (simp add: completion_order.simps [of pick pending] Let_def i_def)
  qed
qed

lemma fetch_each_failed:
  "fetch_each yt output_dir downloaded_file cf cb urls (successful_urls, failed_urls) w
     = (Inr (successful_urls', failed_urls'), w') \<Longrightarrow>
   fst ` set failed_urls' \<subseteq> fst ` set failed_urls \<union> set urls"
proof (induction urls arbitrary: successful_urls failed_urls w)
  case Nil
  then show ?case by auto
next
  case (Cons url rest)
  obtain x w1 where dv: "download_video yt url output_dir 3 cf cb w = (x, w1)"
    by (cases "download_video yt url output_dir 3 cf cb w")
  from download_video_default_some [OF dv] obtain res where x: "x = Inr (Some res)"
    by blast
  show ?case
  proof (cases "succeeded res")
    case True
    with Cons.prems dv x
    have "fetch_each yt output_dir downloaded_file cf cb rest
            (successful_urls @ [url], failed_urls)
            (append_file downloaded_file (url @ [LF]) w1)
          = (Inr (successful_urls', failed_urls'), w')"
      by simp
    from Cons.IH [OF this] show ?thesis by auto
  next
    case False
    with Cons.prems dv x
    have "fetch_each yt output_dir downloaded_file cf cb rest
            (successful_urls, failed_urls @ [failed_entry_of url res]) w1
          = (Inr (successful_urls', failed_urls'), w')"
      by simp
    from Cons.IH [OF this] have
      "fst ` set failed_urls' \<subseteq> fst ` set (failed_urls @ [failed_entry_of url res]) \<union> set rest" .
    moreover have "fst (failed_entry_of url res) = url"
      by (cases res) simp_all
    ultimately show ?thesis by auto
  qed
qed

lemma after_chunk_ledger:
  "read_downloaded_urls ''downloaded_train_urls.txt'' (makedirs ''out'' w_after_chunk)
     = Inr {''ABC''}"
  by (simp add: driver_defs w_after_chunk_def)

lemma after_chunk_retry:
  "fst (download_batch always_fail (\<lambda>pending. 0) [''QRS''] ''out''
          ''downloaded_train_urls.txt'' 1 None None w_after_chunk) = Inr ()"
  by (simp add: driver_defs run_defs always_fail_def w_after_chunk_def)

section \<open>Stripped lines\<close>

lemma py_strip_snoc_space:
  assumes "py_isspace c"
  shows "py_strip (line @ [c]) = py_strip line"
proof (cases "list_all py_isspace line")
  case True
  then have "dropWhile py_isspace (line @ [c]) = []" "dropWhile py_isspace line = []"
    using assms by (simp_all add: list_all_iff)
  then show ?thesis by (simp only: py_strip_def rev.simps dropWhile.simps)
next
  case False
  then obtain x where "x \<in> set line" "\<not> py_isspace x"
    by (auto simp: list_all_iff)
  then have "dropWhile py_isspace (line @ [c]) = dropWhile py_isspace line @ [c]"
    by (simp add: dropWhile_append1)
  then show ?thesis
    using assms by (simp add: py_strip_def)
qed

lemma py_strip_empty_iff: "py_strip line = [] \<longleftrightarrow> list_all py_isspace line"
proof
  assume "list_all py_isspace line"
  then have "dropWhile py_isspace line = []"
    by (simp add: list_all_iff)
  then show "py_strip line = []" by (simp only: py_strip_def rev.simps dropWhile.simps)
next
  assume "py_strip line = []"
  then have a: "\<forall>x\<in>set (dropWhile py_isspace line). py_isspace x"
    by (simp add: py_strip_def dropWhile_eq_Nil_conv)
  have "dropWhile py_isspace line = []"
  proof (rule ccontr)
    assume n: "dropWhile py_isspace line \<noteq> []"
    then have "\<not> py_isspace (hd (dropWhile py_isspace line))"
      by (rule hd_dropWhile)
    with a n show False by (metis hd_in_set)
  qed
  then show "list_all py_isspace line"
    by (simp add: dropWhile_eq_Nil_conv list_all_iff)
qed

lemma py_isspace_LF: "py_isspace LF"
  by (simp add: py_isspace_def LF_def)

lemma py_strip_chop:
  "py_strip (if line \<noteq> [] \<and> last line = LF then butlast line else line) = py_strip line"
proof (cases "line \<noteq> [] \<and> last line = LF")
  case True
  then have "line = butlast line @ [LF]"
    by (metis append_butlast_last_id)
  then have "py_strip line = py_strip (butlast line)"
    using py_strip_snoc_space [OF py_isspace_LF, of "butlast line"] by simp
  with True show ?thesis by simp
next
  case False
  then show ?thesis by auto
qed

lemma stripped_lines_non_blank:
  "set (stripped_lines content) = py_strip ` set (non_blank_lines content)"
proof -
  define chop where
    "chop = (\<lambda>line. if line \<noteq> [] \<and> last line = LF then butlast line else line)"
  have c: "py_strip (chop line) = py_strip line" for line
    unfolding chop_def by (rule py_strip_chop)
  have b: "list_all py_isspace (chop line) \<longleftrightarrow> list_all py_isspace line" for line
    using c [of line] py_strip_empty_iff [of line] py_strip_empty_iff [of "chop line"] by simp
  have "set (stripped_lines content)
          = py_strip ` {line \<in> set (file_lines [] content). \<not> list_all py_isspace line}"
    by (simp add: stripped_lines_def py_strip_empty_iff)
  also have "\<dots> = py_strip ` chop ` {line \<in> set (file_lines [] content). \<not> list_all py_isspace line}"
    by (simp add: image_image c)
  also have "chop ` {line \<in> set (file_lines [] content). \<not> list_all py_isspace line}
               = set (non_blank_lines content)"
    unfolding non_blank_lines_def text_lines_def chop_def [symmetric]
    by (auto simp: b)
  finally show ?thesis .
qed

section \<open>The run driver completes\<close>

text \<open>
  A run of the driver raises nothing when the input file can be read, the chunk size is
  not zero, there is at least one worker, and the ledger's path is neither a directory
  nor the output directory.
\<close>

lemma popen_dirs:
  "popen_communicate yt cmd w = (r, w') \<Longrightarrow> dirs w' = dirs w"
  by (auto simp: popen_communicate_def split: prod.splits)

lemma sleep_backoff_dirs:
  "sleep_backoff attempt w = (r, w') \<Longrightarrow> dirs w' = dirs w"
  by (auto simp: sleep_backoff_def Let_def split: if_splits)

lemma on_exception_dirs:
  "on_exception url vid retry_count attempt e w = (s, w') \<Longrightarrow> dirs w' = dirs w"
  by (auto simp: on_exception_def split: if_splits prod.splits sum.splits
           dest: sleep_backoff_dirs)

lemma retry_or_fail_dirs:
  "retry_or_fail url vid retry_count attempt out err w = (s, w') \<Longrightarrow> dirs w' = dirs w"
  by (auto simp: retry_or_fail_def split: if_splits prod.splits sum.splits
           dest!: sleep_backoff_dirs on_exception_dirs)

lemma attempt_body_dirs:
  "attempt_body yt url vid tmpl retry_count cf cb attempt w = (s, w') \<Longrightarrow> dirs w' = dirs w"
  by (auto simp: attempt_body_def split: prod.splits proc.splits if_splits
           dest!: popen_dirs on_exception_dirs retry_or_fail_dirs)

lemma attempts_from_dirs:
  "attempts_from yt url vid tmpl retry_count cf cb attempt w = (r, w') \<Longrightarrow> dirs w' = dirs w"
proof (induction yt url vid tmpl retry_count cf cb attempt w rule: attempts_from.induct)
  case (1 yt url vid tmpl retry_count cf cb attempt w)
  obtain s w1 where b: "attempt_body yt url vid tmpl retry_count cf cb attempt w = (s, w1)"
    by (cases "attempt_body yt url vid tmpl retry_count cf cb attempt w")
  note d = attempt_body_dirs [OF b]
  show ?case
  proof (cases "attempt < retry_count")
    case False
    with 1(2) show ?thesis by (simp add: attempts_from.simps)
  next
    case True
    show ?thesis
    proof (cases s)
      case (Return res)
      with b True 1(2) d show ?thesis
        by (simp add: attempts_from.simps [of _ _ _ _ _ _ _ attempt])
    next
      case Continue
      with b True 1(2)
      have "attempts_from yt url vid tmpl retry_count cf cb (attempt + 1) w1 = (r, w')"
        by (simp add: attempts_from.simps [of _ _ _ _ _ _ _ attempt])
      from 1(1) [OF True b [symmetric, unfolded Continue] _ this] d show ?thesis
        by simp
    next
      case (Raise e)
      with b True 1(2) d show ?thesis
        by (simp add: attempts_from.simps [of _ _ _ _ _ _ _ attempt])
    qed
  qed
qed

lemma download_video_dirs:
  assumes "download_video yt url output_dir retry_count cf cb w = (r, w')"
  shows "dirs w' = dirs w"
proof (cases "extract_video_id_from_url url")
  case (Inl e)
  with assms show ?thesis by (simp add: download_video_def)
next
  case (Inr vid)
  show ?thesis
  proof (cases "output_exists w output_dir vid")
    case True
    with Inr assms show ?thesis by (simp add: download_video_def)
  next
    case False
    obtain x w1 where
      a: "attempts_from yt url vid (path_join output_dir (vid @ ''.%(ext)s''))
            retry_count cf cb 0 w = (x, w1)"
      by (cases "attempts_from yt url vid (path_join output_dir (vid @ ''.%(ext)s''))
                   retry_count cf cb 0 w")
    with Inr False assms have "w' = w1"
      by (simp add: download_video_def Let_def)
    with attempts_from_dirs [OF a] show ?thesis
      by simp
  qed
qed

lemma fetch_each_dirs:
  "fetch_each yt output_dir downloaded_file cf cb urls acc w = (r, w') \<Longrightarrow> dirs w' = dirs w"
proof (induction urls arbitrary: acc w)
  case Nil
  then show ?case by simp
next
  case (Cons url rest)
  obtain successful_urls failed_urls where acc: "acc = (successful_urls, failed_urls)"
    by (cases acc)
  obtain x w1 where dv: "download_video yt url output_dir 3 cf cb w = (x, w1)"
    by (cases "download_video yt url output_dir 3 cf cb w")
  note d = download_video_dirs [OF dv]
  from download_video_default_some [OF dv] obtain res where x: "x = Inr (Some res)"
    by blast
  show ?case
  proof (cases "succeeded res")
    case True
    with Cons.prems dv x acc
    have "fetch_each yt output_dir downloaded_file cf cb rest
            (successful_urls @ [url], failed_urls)
            (append_file downloaded_file (url @ [LF]) w1) = (r, w')"
      by simp
    from Cons.IH [OF this] d show ?thesis
      by (simp add: append_file_def)
  next
    case False
    with Cons.prems dv x acc
    have "fetch_each yt output_dir downloaded_file cf cb rest
            (successful_urls, failed_urls @ [failed_entry_of url res]) w1 = (r, w')"
      by simp
    from Cons.IH [OF this] d show ?thesis
      by simp
  qed
qed

lemma read_downloaded_urls_total:
  "p \<notin> dirs w \<Longrightarrow> \<exists>ledger. read_downloaded_urls p w = Inr ledger"
  by (auto simp: read_downloaded_urls_def path_exists_def open_read_def)

lemma download_batch_completes:
  assumes d: "downloaded_file \<notin> dirs w" and o: "downloaded_file \<noteq> output_dir"
      and m: "1 \<le> max_workers"
  shows "\<exists>w'. download_batch yt pick urls output_dir downloaded_file max_workers cf cb w
                = (Inr (), w')
              \<and> dirs w' = insert output_dir (dirs w)"
proof -
  define w0 where "w0 = makedirs output_dir (w\<lparr>trace := trace w @ [Batch urls]\<rparr>)"
  have d0: "dirs w0 = insert output_dir (dirs w)"
    by (simp add: w0_def makedirs_def)
  with d o have "downloaded_file \<notin> dirs w0" by simp
  from read_downloaded_urls_total [OF this] obtain ledger where
    r: "read_downloaded_urls downloaded_file w0 = Inr ledger"
    by blast
  define todo where "todo = filter (\<lambda>url. url \<notin> ledger) urls"
  define sched where "sched = (if max_workers = 1 then todo else completion_order pick todo)"
  obtain acc w1 where
    f: "fetch_each yt output_dir downloaded_file cf cb sched ([], []) w0 = (Inr acc, w1)"
    using fetch_each_total by blast
  obtain successful_urls failed_urls where acc: "acc = (successful_urls, failed_urls)"
    by (cases acc)
  from fetch_each_dirs [OF f] d0 have d1: "dirs w1 = insert output_dir (dirs w)"
    by simp
  show ?thesis
    using r f acc d0 d1 m
    by (simp add: download_batch_def Let_def w0_def [symmetric] todo_def [symmetric]
          sched_def [symmetric] write_file_def)
qed

lemma batches_from_completes:
  assumes "downloaded_file \<notin> dirs w" and "downloaded_file \<noteq> output_dir"
      and "1 \<le> max_workers"
  shows "\<exists>w'. batches_from yt rnd pick urls output_dir downloaded_file batch_size max_workers
                 cf cb tb k w = (Inr (), w')"
  using assms
proof (induction yt rnd pick urls output_dir downloaded_file batch_size max_workers cf cb tb k w
       rule: batches_from.induct)
  case (1 yt rnd pick urls od df bs mw cf cb tb k w)
  show ?case
  proof (cases "k < tb")
    case False
    then show ?thesis by (simp add: batches_from.simps)
  next
    case True
    define chunk where "chunk = batch_slice urls bs k"
    from download_batch_completes [OF 1(2) 1(3) 1(4)] obtain w1 where
      db: "download_batch yt pick chunk od df mw cf cb w = (Inr (), w1)" and
      d1: "dirs w1 = insert od (dirs w)"
      by blast
    obtain s w2 where ri: "randint rnd 5 60 w1 = (s, w2)"
      by (cases "randint rnd 5 60 w1")
    then have d2: "dirs w2 = dirs w1"
      by (auto simp: randint_def)
    have "df \<notin> dirs (w2\<lparr>trace := trace w2 @ [Pace s]\<rparr>)"
      using d1 d2 1(2) 1(3) by simp
    from 1(1) [OF True refl db [unfolded chunk_def, symmetric] refl ri [symmetric] this 1(3) 1(4)]
    obtain w' where
      "batches_from yt rnd pick urls od df bs mw cf cb tb (k + 1)
         (w2\<lparr>trace := trace w2 @ [Pace s]\<rparr>) = (Inr (), w')"
      by blast
    with True db ri show ?thesis
      by (simp add: batches_from.simps [of _ _ _ _ _ _ _ _ _ _ _ k] Let_def chunk_def)
  qed
qed

lemma ledger_name_total: "\<exists>downloaded_file. ledger_name url_file = Inr downloaded_file"
  using py_split_from_nonempty [of "''.''" "[]" "basename url_file"]
  by (auto simp: ledger_name_def py_split_def split: list.splits)

lemma driver_completes:
  assumes "ledger_name url_file = Inr downloaded_file"
      and "read_urls url_file w = Inr all_urls"
      and "downloaded_file \<notin> dirs w" and "downloaded_file \<noteq> output_dir"
      and "batch_size \<noteq> 0" and "1 \<le> max_workers"
  shows "\<exists>w'. batch_download_from_file yt rnd pick url_file output_dir batch_size max_workers
                 cf cb w = (Inr (), w')"
proof -
  from read_downloaded_urls_total [OF assms(3)] obtain ledger where
    "read_downloaded_urls downloaded_file w = Inr ledger"
    by blast
  with assms(1,2,5) batches_from_completes [OF assms(3,4,6)] show ?thesis
    by (simp add: batch_download_from_file_def Let_def)
qed

section \<open>The properties\<close>

subsection \<open>The identifier normalizer\<close>

text \<open>
  Claim C2 gives three test vectors of the normalizer. The first fails on the code: the
  reference \<open>https://x/watch?v=ABC&t=5\<close> does not contain the long-form marker
  \<open>youtube.com/watch?v=\<close>, which includes the host, nor the short-form marker, so
  \<open>extract_video_id_from_url\<close> returns it unchanged and not \<open>ABC\<close>.
\<close>

theorem normalizer_vectors_counterexample:
  "extract_video_id_from_url ''https://x/watch?v=ABC&t=5'' \<noteq> Inr ''ABC''"
  by (simp add: extract_video_id_from_url_def long_marker_def short_marker_def)

text \<open>
  Claim C2, amended: a long-form reference with the host \<open>youtube.com\<close> normalizes to
  \<open>ABC\<close>, as do the short-form reference and the bare identifier of the claim; the
  reference with the host \<open>x\<close> is returned as it is.
\<close>

theorem normalizer_vectors:
  "extract_video_id_from_url ''https://youtube.com/watch?v=ABC&t=5'' = Inr ''ABC''
   \<and> extract_video_id_from_url ''https://youtu.be/ABC?t=5'' = Inr ''ABC''
   \<and> extract_video_id_from_url ''ABC'' = Inr ''ABC''
   \<and> extract_video_id_from_url ''https://x/watch?v=ABC&t=5'' = Inr ''https://x/watch?v=ABC&t=5''"
  by (simp add: extract_video_id_from_url_def long_marker_def short_marker_def
        second_then_first_def py_split_def)

subsection \<open>The fetch of one item\<close>

text \<open>
  Claim C6: when the reference normalizes to \<open>video_id\<close> and the path
  \<open>output_dir/video_id.ext\<close> exists for one of the extensions \<open>mp4\<close>, \<open>mkv\<close>, \<open>webm\<close>,
  the fetch returns \<open>already_exists\<close> and leaves the world as it was: no process is
  spawned, whatever the downloader and the retry limit.
\<close>

theorem existing_output_short_circuits:
  assumes "extract_video_id_from_url url = Inr video_id"
      and "ext \<in> set known_extensions"
      and "path_exists w (path_join output_dir (video_id @ ''.'' @ ext))"
  shows "download_video yt url output_dir retry_count cf cb w
           = (Inr (Some (Already_exists url video_id)), w)"
  using assms by (auto simp: download_video_def output_exists_def list_ex_iff)

theorem existing_output_short_circuits_witness:
  "extract_video_id_from_url ''https://youtu.be/ABC?t=5'' = Inr ''ABC''
   \<and> path_exists w_with_mp4 ''out/ABC.mp4''
   \<and> download_video always_fail ''https://youtu.be/ABC?t=5'' ''out'' 3 None None w_with_mp4
     = (Inr (Some (Already_exists ''https://youtu.be/ABC?t=5'' ''ABC'')), w_with_mp4)
   \<and> spawns (trace w_with_mp4) = []"
proof -
  have e: "extract_video_id_from_url ''https://youtu.be/ABC?t=5'' = Inr ''ABC''"
    by (simp add: extract_video_id_from_url_def long_marker_def short_marker_def
          second_then_first_def py_split_def)
  have x: "''mp4'' \<in> set known_extensions"
    by (simp add: known_extensions_def)
  have p: "path_exists w_with_mp4 (path_join ''out'' (''ABC'' @ ''.'' @ ''mp4''))"
    by (simp add: path_exists_def path_join_def w_with_mp4_def)
  from existing_output_short_circuits [OF e x p, of always_fail 3 None None] e p
  show ?thesis
    by (simp add: path_join_def spawns_def w_with_mp4_def)
qed




text \<open>
  Claim C4 says that a failed downloader invocation whose output contains the bot-check
  string, with no credentials given, makes the fetch return \<open>Authentication required\<close>
  at once. The invocation with the fallback format at attempt index 1 is a downloader
  invocation too, and of it the code tests the return code only: when it fails with the
  bot-check string, the fetch sleeps, makes a further attempt and returns
  \<open>Failed after 3 attempts\<close>.
\<close>

theorem auth_required_fallback_counterexample:
  "fallback_sign_in_tool [] Map.empty (fallback_cmd ''ABC'' ''out/ABC.%(ext)s'' None None)
     = (Exited 1 [] ''ERROR: Sign in to confirm you're not a bot'', Map.empty)
   \<and> py_in bot_marker ''ERROR: Sign in to confirm you're not a bot''
   \<and> download_video fallback_sign_in_tool ''ABC'' ''out'' 3 None None w_empty
     = (Inr (Some (Error ''ABC'' ''ABC'' ''Failed after 3 attempts''
                     (Some ''ERROR: unable to download''))),
        w_empty\<lparr>trace := [Spawn (primary_cmd ''ABC'' ''out/ABC.%(ext)s'' None None), Backoff 1,
          Spawn (primary_cmd ''ABC'' ''out/ABC.%(ext)s'' None None),
          Spawn (fallback_cmd ''ABC'' ''out/ABC.%(ext)s'' None None), Backoff 2,
          Spawn (primary_cmd ''ABC'' ''out/ABC.%(ext)s'' None None)], draws := 2\<rparr>)
   \<and> ''Failed after 3 attempts'' \<noteq> auth_required_msg"
  by (simp add: run_defs fallback_sign_in_tool_def w_empty_def)

text \<open>
  Claim C4, amended: at any attempt of the retry loop, when the invocation with the
  primary format exits with a non-zero code, its standard output or standard error
  contains the bot-check string, and neither a cookie file nor a browser name was given
  (\<open>None\<close> or the empty string), the loop returns the error
  \<open>Authentication required\<close> with the standard error as details, after that one
  process and with no sleep; so does the fetch whose first invocation ends that way.
  When a cookie file or a browser name was given, no fetch returns that error.
\<close>

theorem auth_required_immediately:
  "(attempt < retry_count
      \<and> yt (trace w) (files w) (primary_cmd url tmpl cf cb) = (Exited rc out err, fs)
      \<and> rc \<noteq> 0 \<and> (py_in bot_marker out \<or> py_in bot_marker err)
      \<and> \<not> truthy cf \<and> \<not> truthy cb
    \<longrightarrow> attempts_from yt url vid tmpl retry_count cf cb attempt w
          = (Inr (Some (Error url vid auth_required_msg (Some err))),
             w\<lparr>files := fs, trace := trace w @ [Spawn (primary_cmd url tmpl cf cb)]\<rparr>))
   \<and> (extract_video_id_from_url url = Inr video_id
      \<and> \<not> output_exists w output_dir video_id \<and> 1 \<le> retry_count
      \<and> yt (trace w) (files w)
            (primary_cmd url (path_join output_dir (video_id @ ''.%(ext)s'')) cf cb)
          = (Exited rc out err, fs)
      \<and> rc \<noteq> 0 \<and> (py_in bot_marker out \<or> py_in bot_marker err)
      \<and> \<not> truthy cf \<and> \<not> truthy cb
    \<longrightarrow> download_video yt url output_dir retry_count cf cb w
          = (Inr (Some (Error url video_id auth_required_msg (Some err))),
             w\<lparr>files := fs,
               trace := trace w
                 @ [Spawn (primary_cmd url (path_join output_dir (video_id @ ''.%(ext)s''))
                             cf cb)]\<rparr>))
   \<and> (truthy cf \<or> truthy cb
    \<longrightarrow> fst (download_video yt url output_dir retry_count cf cb w)
          \<noteq> Inr (Some (Error u v auth_required_msg (Some d))))"
proof (intro conjI impI)
  assume a: "attempt < retry_count
      \<and> yt (trace w) (files w) (primary_cmd url tmpl cf cb) = (Exited rc out err, fs)
      \<and> rc \<noteq> 0 \<and> (py_in bot_marker out \<or> py_in bot_marker err)
      \<and> \<not> truthy cf \<and> \<not> truthy cb"
  then have "attempt_body yt url vid tmpl retry_count cf cb attempt w
           = (Return (Error url vid auth_required_msg (Some err)),
              w\<lparr>files := fs, trace := trace w @ [Spawn (primary_cmd url tmpl cf cb)]\<rparr>)"
    using attempt_body_auth [of yt w url tmpl cf cb rc out err fs] by blast
  with a show "attempts_from yt url vid tmpl retry_count cf cb attempt w
          = (Inr (Some (Error url vid auth_required_msg (Some err))),
             w\<lparr>files := fs, trace := trace w @ [Spawn (primary_cmd url tmpl cf cb)]\<rparr>)"
    by (simp add: attempts_from.simps [of _ _ _ _ _ _ _ attempt])
next
  assume a: "extract_video_id_from_url url = Inr video_id
      \<and> \<not> output_exists w output_dir video_id \<and> 1 \<le> retry_count
      \<and> yt (trace w) (files w)
            (primary_cmd url (path_join output_dir (video_id @ ''.%(ext)s'')) cf cb)
          = (Exited rc out err, fs)
      \<and> rc \<noteq> 0 \<and> (py_in bot_marker out \<or> py_in bot_marker err)
      \<and> \<not> truthy cf \<and> \<not> truthy cb"
  then have "attempt_body yt url video_id (path_join output_dir (video_id @ ''.%(ext)s''))
               retry_count cf cb 0 w
           = (Return (Error url video_id auth_required_msg (Some err)),
              w\<lparr>files := fs,
                trace := trace w
                  @ [Spawn (primary_cmd url (path_join output_dir (video_id @ ''.%(ext)s''))
                              cf cb)]\<rparr>)"
    using attempt_body_auth
            [of yt w url "path_join output_dir (video_id @ ''.%(ext)s'')" cf cb rc out err fs]
    by blast
  with a show "download_video yt url output_dir retry_count cf cb w
          = (Inr (Some (Error url video_id auth_required_msg (Some err))),
             w\<lparr>files := fs,
               trace := trace w
                 @ [Spawn (primary_cmd url (path_join output_dir (video_id @ ''.%(ext)s''))
                             cf cb)]\<rparr>)"
    by (simp add: download_video_def attempts_from.simps [of _ _ _ _ _ _ _ 0])
next
  assume "truthy cf \<or> truthy cb"
  then show "fst (download_video yt url output_dir retry_count cf cb w)
          \<noteq> Inr (Some (Error u v auth_required_msg (Some d)))"
    by (rule download_video_no_auth_error)
qed

theorem auth_required_immediately_witness:
  "(sign_in_tool [] Map.empty (primary_cmd ''ABC'' ''out/ABC.%(ext)s'' None None)
      = (Exited 1 [] ''ERROR: Sign in to confirm you're not a bot'', Map.empty)
    \<and> py_in bot_marker ''ERROR: Sign in to confirm you're not a bot''
    \<and> attempts_from sign_in_tool ''ABC'' ''ABC'' ''out/ABC.%(ext)s'' 3 None None 2 w_empty
        = (Inr (Some (Error ''ABC'' ''ABC'' auth_required_msg
                        (Some ''ERROR: Sign in to confirm you're not a bot''))),
           w_empty\<lparr>trace := [Spawn (primary_cmd ''ABC'' ''out/ABC.%(ext)s'' None None)]\<rparr>)
    \<and> download_video sign_in_tool ''ABC'' ''out'' 3 None None w_empty
        = (Inr (Some (Error ''ABC'' ''ABC'' auth_required_msg
                        (Some ''ERROR: Sign in to confirm you're not a bot''))),
           w_empty\<lparr>trace := [Spawn (primary_cmd ''ABC'' ''out/ABC.%(ext)s'' None None)]\<rparr>))
   \<and> (truthy (Some ''cookies.txt'')
    \<and> fst (download_video sign_in_tool ''ABC'' ''out'' 3 (Some ''cookies.txt'') None w_empty)
        \<noteq> Inr (Some (Error ''ABC'' ''ABC'' auth_required_msg
                         (Some ''ERROR: Sign in to confirm you're not a bot''))))"
proof -
  have b: "py_in bot_marker ''ERROR: Sign in to confirm you're not a bot''"
    by (simp add: bot_marker_def)
  have y: "sign_in_tool (trace w_empty) (files w_empty)
             (primary_cmd ''ABC'' ''out/ABC.%(ext)s'' None None)
           = (Exited 1 [] ''ERROR: Sign in to confirm you're not a bot'', files w_empty)"
    by (simp add: sign_in_tool_def)
  have h1: "(2::int) < 3
      \<and> sign_in_tool (trace w_empty) (files w_empty)
            (primary_cmd ''ABC'' ''out/ABC.%(ext)s'' None None)
          = (Exited 1 [] ''ERROR: Sign in to confirm you're not a bot'', files w_empty)
      \<and> (1::int) \<noteq> 0
      \<and> (py_in bot_marker [] \<or> py_in bot_marker ''ERROR: Sign in to confirm you're not a bot'')
      \<and> \<not> truthy None \<and> \<not> truthy None"
    using b y by simp
  have h2: "extract_video_id_from_url ''ABC'' = Inr ''ABC''
      \<and> \<not> output_exists w_empty ''out'' ''ABC'' \<and> (1::int) \<le> 3
      \<and> sign_in_tool (trace w_empty) (files w_empty)
            (primary_cmd ''ABC'' (path_join ''out'' (''ABC'' @ ''.%(ext)s'')) None None)
          = (Exited 1 [] ''ERROR: Sign in to confirm you're not a bot'', files w_empty)
      \<and> (1::int) \<noteq> 0
      \<and> (py_in bot_marker [] \<or> py_in bot_marker ''ERROR: Sign in to confirm you're not a bot'')
      \<and> \<not> truthy None \<and> \<not> truthy None"
    using b extract_ABC no_output_in_w_empty by (simp add: sign_in_tool_def)
  have h3: "truthy (Some ''cookies.txt'') \<or> truthy None"
    by simp
  note t = auth_required_immediately
             [where retry_count = 3 and yt = sign_in_tool and url = "''ABC''"
                and vid = "''ABC''" and video_id = "''ABC''" and output_dir = "''out''"
                and u = "''ABC''" and v = "''ABC''"
                and d = "''ERROR: Sign in to confirm you're not a bot''"]
  from t [where attempt = 2 and w = w_empty and cf = None and cb = None
            and tmpl = "''out/ABC.%(ext)s''", THEN conjunct1, THEN mp, OF h1]
       t [where w = w_empty and cf = None and cb = None,
          THEN conjunct2, THEN conjunct1, THEN mp, OF h2]
       t [where w = w_empty and cf = "Some ''cookies.txt''" and cb = None,
          THEN conjunct2, THEN conjunct2, THEN mp, OF h3]
       b
  show ?thesis
    by (simp add: w_empty_def sign_in_tool_def path_join_def)
qed

text \<open>
  Claim C5 says that a failed invocation whose output contains \<open>Video unavailable\<close>
  makes the fetch return the error \<open>Video unavailable\<close>. The check for the bot-check
  string comes first in the code: when the output contains both strings and no
  credentials were given, the fetch returns \<open>Authentication required\<close>.
\<close>

theorem unavailable_after_bot_check_counterexample:
  "unavailable_sign_in_tool [] Map.empty (primary_cmd ''ABC'' ''out/ABC.%(ext)s'' None None)
     = (Exited 1 ''Video unavailable'' ''Sign in to confirm you're not a bot'', Map.empty)
   \<and> py_in unavailable_marker ''Video unavailable''
   \<and> download_video unavailable_sign_in_tool ''ABC'' ''out'' 3 None None w_empty
     = (Inr (Some (Error ''ABC'' ''ABC'' auth_required_msg
                     (Some ''Sign in to confirm you're not a bot''))),
        w_empty\<lparr>trace := [Spawn (primary_cmd ''ABC'' ''out/ABC.%(ext)s'' None None)]\<rparr>)
   \<and> auth_required_msg \<noteq> unavailable_msg"
  by (simp add: run_defs unavailable_sign_in_tool_def w_empty_def)

text \<open>
  Claim C5, amended: when the first invocation exits with a non-zero code, its output
  contains \<open>Video unavailable\<close>, and the bot-check branch does not apply (the output
  lacks the bot-check string, or credentials were given), the fetch returns the error
  \<open>Video unavailable (removed or private)\<close> with \<open>stdout + stderr\<close> as details; the
  trace gains that one process and nothing else: no retry and no backoff sleep.
\<close>

theorem unavailable_after_one_attempt:
  assumes "extract_video_id_from_url url = Inr video_id"
      and "\<not> output_exists w output_dir video_id"
      and "1 \<le> retry_count"
      and "yt (trace w) (files w)
             (primary_cmd url (path_join output_dir (video_id @ ''.%(ext)s'')) cf cb)
           = (Exited rc out err, fs)"
      and "rc \<noteq> 0"
      and "py_in unavailable_marker out \<or> py_in unavailable_marker err"
      and "\<not> ((py_in bot_marker err \<or> py_in bot_marker out) \<and> \<not> (truthy cf \<or> truthy cb))"
  shows "download_video yt url output_dir retry_count cf cb w
           = (Inr (Some (Error url video_id unavailable_msg (Some (out @ err)))),
              w\<lparr>files := fs,
                trace := trace w
                  @ [Spawn (primary_cmd url (path_join output_dir (video_id @ ''.%(ext)s''))
                              cf cb)]\<rparr>)"
proof -
  have "attempt_body yt url video_id (path_join output_dir (video_id @ ''.%(ext)s''))
          retry_count cf cb 0 w
        = (Return (Error url video_id unavailable_msg (Some (out @ err))),
           w\<lparr>files := fs,
             trace := trace w
               @ [Spawn (primary_cmd url (path_join output_dir (video_id @ ''.%(ext)s''))
                           cf cb)]\<rparr>)"
    using assms(4-7) by (rule attempt_body_unavailable)
  with assms(1-3) show ?thesis
    by (simp add: download_video_def attempts_from.simps [of _ _ _ _ _ _ _ 0])
qed

theorem unavailable_after_one_attempt_witness:
  "download_video unavailable_tool ''ABC'' ''out'' 3 None None w_empty
     = (Inr (Some (Error ''ABC'' ''ABC'' unavailable_msg (Some ''ERROR: Video unavailable''))),
        w_empty\<lparr>trace := [Spawn (primary_cmd ''ABC'' ''out/ABC.%(ext)s'' None None)]\<rparr>)"
proof -
  have y: "unavailable_tool (trace w_empty) (files w_empty)
             (primary_cmd ''ABC'' (path_join ''out'' (''ABC'' @ ''.%(ext)s'')) None None)
           = (Exited 1 [] ''ERROR: Video unavailable'', files w_empty)"
    by (simp add: unavailable_tool_def)
  have m: "py_in unavailable_marker [] \<or> py_in unavailable_marker ''ERROR: Video unavailable''"
    by (simp add: unavailable_marker_def)
  have b: "\<not> ((py_in bot_marker ''ERROR: Video unavailable'' \<or> py_in bot_marker [])
              \<and> \<not> (truthy None \<or> truthy None))"
    by (simp add: bot_marker_def)
  show ?thesis
    using unavailable_after_one_attempt
            [where yt = unavailable_tool and retry_count = 3 and rc = 1 and cf = None
               and cb = None, OF extract_ABC no_output_in_w_empty _ y _ m b]
    by (simp add: path_join_def w_empty_def)
qed

text \<open>
  Claim C1 says that a downloader that always fails with a generic error is invoked
  exactly 3 times under a retry limit of 3. The code spawns it 4 times: once per
  attempt with the primary format, and once more with the fallback format at attempt
  index 1.
\<close>

theorem retry_exhaustion_three_spawns_counterexample:
  "length (spawns (trace (snd (download_video always_fail ''ABC'' ''out'' 3 None None w_empty)))) = 4
   \<and> length (spawns (trace (snd (download_video always_fail ''ABC'' ''out'' 3 None None w_empty)))) \<noteq> 3"
  by (simp add: run_defs always_fail_def w_empty_def spawns_def)

text \<open>
  Claim C1, amended: with a retry limit of 3 and a downloader that always fails with a
  generic error, the fetch spawns four processes, with two backoff sleeps in between
  (primary, sleep, primary, fallback, sleep, primary), and returns the error
  \<open>Failed after 3 attempts\<close> whose details are the output captured from the last of
  them.
\<close>

theorem retry_exhaustion:
  assumes g: "\<forall>tr fs cmd. generic_failure (fst (yt tr fs cmd))"
      and e: "extract_video_id_from_url url = Inr video_id"
      and n: "\<not> output_exists w output_dir video_id"
  shows "let tmpl = path_join output_dir (video_id @ ''.%(ext)s'');
             p = primary_cmd url tmpl cf cb;
             f = fallback_cmd url tmpl cf cb;
             w1 = snd (sleep_backoff 0 (snd (popen_communicate yt p w)));
             w2 = snd (sleep_backoff 1
                         (snd (popen_communicate yt f (snd (popen_communicate yt p w1)))));
             (last_result, w3) = popen_communicate yt p w2
         in download_video yt url output_dir 3 cf cb w
              = (Inr (Some (Error url video_id (failed_after_msg 3)
                              (Some (captured last_result)))), w3)
            \<and> trace w3 = trace w @ [Spawn p, Backoff 1, Spawn p, Spawn f, Backoff 2, Spawn p]"
proof -
  note body = attempt_body_generic [OF g, unfolded Let_def case_prod_unfold]
  show ?thesis
    using e n
    by (simp add: download_video_def attempts_from.simps body Let_def case_prod_unfold
          sleep_backoff_def)
qed

theorem retry_exhaustion_witness:
  "download_video always_fail ''ABC'' ''out'' 3 None None w_empty
     = (Inr (Some (Error ''ABC'' ''ABC'' ''Failed after 3 attempts''
                     (Some ''ERROR: unable to download''))),
        w_empty\<lparr>trace := [Spawn (primary_cmd ''ABC'' ''out/ABC.%(ext)s'' None None), Backoff 1,
          Spawn (primary_cmd ''ABC'' ''out/ABC.%(ext)s'' None None),
          Spawn (fallback_cmd ''ABC'' ''out/ABC.%(ext)s'' None None), Backoff 2,
          Spawn (primary_cmd ''ABC'' ''out/ABC.%(ext)s'' None None)], draws := 2\<rparr>)"
proof -
  show ?thesis
    using retry_exhaustion [OF always_fail_generic extract_ABC no_output_in_w_empty, of None None]
    by (simp add: Let_def path_join_def sleep_backoff_def popen_communicate_def always_fail_def
          w_empty_def failed_after_msg_def str_int_def str_nat.simps split: prod.splits)
qed

subsection \<open>The progress ledger\<close>

text \<open>
  Claim C8 says that loading an existing ledger returns the set of its non-blank lines.
  The code strips each line: a ledger whose only line is \<open>abc\<close> preceded by a space
  loads as the set holding \<open>abc\<close>, which is not the set of its non-blank lines.
\<close>

theorem ledger_set_of_lines_counterexample:
  "open_read ''downloaded_train_urls.txt'' w_padded_ledger = Inr ('' abc'' @ [LF])
   \<and> set (non_blank_lines ('' abc'' @ [LF])) = {'' abc''}
   \<and> read_downloaded_urls ''downloaded_train_urls.txt'' w_padded_ledger = Inr {''abc''}
   \<and> {''abc''} \<noteq> {'' abc''}"
  by (simp add: driver_defs non_blank_lines_def text_lines_def w_padded_ledger_def)

text \<open>
  Claim C8, amended: loading the ledger from a path where nothing exists returns the
  empty set and no error; loading an existing ledger file returns the set of its
  non-blank lines, each with the whitespace at both ends removed.
\<close>

theorem load_ledger:
  "(\<not> path_exists w file_path \<longrightarrow> read_downloaded_urls file_path w = Inr {})
   \<and> (files w file_path = Some content \<longrightarrow>
        read_downloaded_urls file_path w = Inr (py_strip ` set (non_blank_lines content)))"
  by (simp add: read_downloaded_urls_def open_read_def path_exists_def
        stripped_lines_non_blank)

theorem load_ledger_witness:
  "\<not> path_exists w_empty ''downloaded_train_urls.txt''
   \<and> read_downloaded_urls ''downloaded_train_urls.txt'' w_empty = Inr {}
   \<and> files w_padded_ledger ''downloaded_train_urls.txt'' = Some ('' abc'' @ [LF])
   \<and> read_downloaded_urls ''downloaded_train_urls.txt'' w_padded_ledger
     = Inr (py_strip ` {'' abc''})"
proof -
  have h1: "\<not> path_exists w_empty ''downloaded_train_urls.txt''"
    by (simp add: path_exists_def w_empty_def)
  have h2: "files w_padded_ledger ''downloaded_train_urls.txt'' = Some ('' abc'' @ [LF])"
    by (simp add: w_padded_ledger_def)
  have n: "set (non_blank_lines ('' abc'' @ [LF])) = {'' abc''}"
    by (simp add: non_blank_lines_def text_lines_def py_isspace_def LF_def CR_def)
  from load_ledger [THEN conjunct1, THEN mp, OF h1]
       load_ledger [THEN conjunct2, THEN mp, OF h2] h1 h2 n
  show ?thesis by simp
qed

subsection \<open>The batch scheduler\<close>

text \<open>
  Claim C10: when every reference of the chunk is in the ledger (or the chunk is empty),
  \<open>download_batch\<close> returns early: the output directory is created, the call is
  recorded, and every file, the failure file among them, is as it was. When some
  reference is not in the ledger and the call completes, the failure file holds
  exactly the lines of this chunk's failures, whatever it held before.
\<close>

theorem early_return_keeps_failure_file:
  "(read_downloaded_urls downloaded_file (makedirs output_dir w) = Inr ledger
      \<and> set urls \<subseteq> ledger
    \<longrightarrow> download_batch yt pick urls output_dir downloaded_file max_workers cf cb w
          = (Inr (), w\<lparr>dirs := insert output_dir (dirs w), trace := trace w @ [Batch urls]\<rparr>))
   \<and> (read_downloaded_urls downloaded_file (makedirs output_dir w) = Inr ledger
      \<and> \<not> set urls \<subseteq> ledger
      \<and> download_batch yt pick urls output_dir downloaded_file max_workers cf cb w
          = (Inr (), w')
    \<longrightarrow> (\<exists>failed_urls.
            files w' (failed_file_of downloaded_file)
              = Some (concat (map failed_line failed_urls))
            \<and> fst ` set failed_urls \<subseteq> set urls - ledger))"
proof (intro conjI impI)
  assume a: "read_downloaded_urls downloaded_file (makedirs output_dir w) = Inr ledger
      \<and> set urls \<subseteq> ledger"
  then have "filter (\<lambda>url. url \<notin> ledger) urls = []"
    by (auto simp: filter_empty_conv)
  moreover have "read_downloaded_urls downloaded_file
                   (makedirs output_dir (w\<lparr>trace := trace w @ [Batch urls]\<rparr>)) = Inr ledger"
    using a by (simp add: read_downloaded_urls_makedirs_trace)
  ultimately show "download_batch yt pick urls output_dir downloaded_file max_workers cf cb w
          = (Inr (), w\<lparr>dirs := insert output_dir (dirs w), trace := trace w @ [Batch urls]\<rparr>)"
    by (simp add: download_batch_def Let_def) (simp add: makedirs_def)
next
  assume a: "read_downloaded_urls downloaded_file (makedirs output_dir w) = Inr ledger
      \<and> \<not> set urls \<subseteq> ledger
      \<and> download_batch yt pick urls output_dir downloaded_file max_workers cf cb w
          = (Inr (), w')"
  define w0 where "w0 = makedirs output_dir (w\<lparr>trace := trace w @ [Batch urls]\<rparr>)"
  define todo where "todo = filter (\<lambda>url. url \<notin> ledger) urls"
  define sched where "sched = (if max_workers = 1 then todo else completion_order pick todo)"
  have r: "read_downloaded_urls downloaded_file w0 = Inr ledger"
    using a by (simp add: w0_def read_downloaded_urls_makedirs_trace)
  have ne: "todo \<noteq> []"
    using a by (auto simp: todo_def filter_empty_conv)
  have sub: "set sched \<subseteq> set urls - ledger"
    using set_completion_order [of pick todo] by (auto simp: sched_def todo_def)
  obtain x w1 where
    f: "fetch_each yt output_dir downloaded_file cf cb sched ([], []) w0 = (x, w1)"
    by (cases "fetch_each yt output_dir downloaded_file cf cb sched ([], []) w0")
  from a r ne f obtain successful_urls failed_urls where
    x: "x = Inr (successful_urls, failed_urls)" and
    w': "w' = write_file (failed_file_of downloaded_file)
                (concat (map failed_line failed_urls)) w1"
    by (auto simp: download_batch_def Let_def w0_def [symmetric] todo_def [symmetric]
          sched_def [symmetric] failed_file_of_def split: if_splits sum.splits prod.splits)
  from fetch_each_failed [OF f [unfolded x]] sub
  have "fst ` set failed_urls \<subseteq> set urls - ledger"
    by auto
  moreover have "files w' (failed_file_of downloaded_file)
                   = Some (concat (map failed_line failed_urls))"
    by (simp add: w' write_file_def)
  ultimately show "\<exists>failed_urls.
            files w' (failed_file_of downloaded_file)
              = Some (concat (map failed_line failed_urls))
            \<and> fst ` set failed_urls \<subseteq> set urls - ledger"
    by blast
qed

theorem early_return_keeps_failure_file_witness:
  "download_batch always_fail (\<lambda>pending. 0) [''ABC''] ''out'' ''downloaded_train_urls.txt''
       10 None None w_after_chunk
     = (Inr (), w_after_chunk\<lparr>trace := [Batch [''ABC'']]\<rparr>)
   \<and> files w_after_chunk (failed_file_of ''downloaded_train_urls.txt'')
     = Some (''XYZ'' @ [TAB] @ ''Failed after 3 attempts'' @ [LF])
   \<and> (\<exists>failed_urls.
         files (snd (download_batch always_fail (\<lambda>pending. 0) [''QRS''] ''out''
                       ''downloaded_train_urls.txt'' 1 None None w_after_chunk))
           (failed_file_of ''downloaded_train_urls.txt'')
           = Some (concat (map failed_line failed_urls))
         \<and> fst ` set failed_urls \<subseteq> {''QRS''})"
proof -
  have h1: "read_downloaded_urls ''downloaded_train_urls.txt'' (makedirs ''out'' w_after_chunk)
              = Inr {''ABC''} \<and> set [''ABC''] \<subseteq> {''ABC''}"
    using after_chunk_ledger by simp
  have h2: "read_downloaded_urls ''downloaded_train_urls.txt'' (makedirs ''out'' w_after_chunk)
              = Inr {''ABC''} \<and> \<not> set [''QRS''] \<subseteq> {''ABC''}
            \<and> download_batch always_fail (\<lambda>pending. 0) [''QRS''] ''out''
                  ''downloaded_train_urls.txt'' 1 None None w_after_chunk
                = (Inr (), snd (download_batch always_fail (\<lambda>pending. 0) [''QRS''] ''out''
                                  ''downloaded_train_urls.txt'' 1 None None w_after_chunk))"
    using after_chunk_ledger after_chunk_retry by (simp add: prod_eq_iff)
  have f: "files w_after_chunk (failed_file_of ''downloaded_train_urls.txt'')
             = Some (''XYZ'' @ [TAB] @ ''Failed after 3 attempts'' @ [LF])"
    by (simp add: failed_file_of_def w_after_chunk_def)
  from early_return_keeps_failure_file [THEN conjunct1, THEN mp, OF h1,
         of always_fail "\<lambda>pending. 0" 10 None None]
       early_return_keeps_failure_file [THEN conjunct2, THEN mp, OF h2]
       f
  show ?thesis
    by (auto simp: w_after_chunk_def)
qed

subsection \<open>The run driver\<close>

text \<open>
  Claim C7: in a run of the driver that completes (\<open>driver_completes\<close> says when it
  does), with a positive chunk size, the lists
  handed to \<open>download_batch\<close>, in the order of the calls, are the chunks of that size
  of the remaining list (the lines of the input file that are not in the ledger), which
  put end to end give the remaining list back. Any list of 120 references has, for
  chunk size 50, the three chunks of 50, 50 and 20 elements: the driver computes 3
  batches, and its slices 0, 1 and 2 have these sizes.
\<close>

theorem chunks_fixed_size_in_order:
  assumes "ledger_name url_file = Inr downloaded_file"
      and "read_urls url_file w = Inr all_urls"
      and "read_downloaded_urls downloaded_file w = Inr ledger"
      and "0 < batch_size"
      and "batch_download_from_file yt rnd pick url_file output_dir batch_size
             max_workers cf cb w = (Inr u, w')"
  shows "batches (trace w')
           = batches (trace w)
             @ chunks_of (nat batch_size) (filter (\<lambda>url. url \<notin> ledger) all_urls)
         \<and> concat (chunks_of (nat batch_size) (filter (\<lambda>url. url \<notin> ledger) all_urls))
           = filter (\<lambda>url. url \<notin> ledger) all_urls
         \<and> (length xs = 120 \<longrightarrow>
              map length (chunks_of (nat 50) xs) = [50, 50, 20]
              \<and> total_batches xs 50 = 3
              \<and> map (\<lambda>batch_num. length (batch_slice xs 50 batch_num)) [0, 1, 2]
                = [50, 50, 20])"
proof (intro conjI impI)
  from driver_run [OF assms] obtain secs where
    "length secs = length (chunks_of (nat batch_size) (filter (\<lambda>url. url \<notin> ledger) all_urls))"
    "driver_events (trace w')
       = driver_events (trace w)
         @ paced (chunks_of (nat batch_size) (filter (\<lambda>url. url \<notin> ledger) all_urls)) secs"
    by blast
  then have "batches (driver_events (trace w'))
               = batches (driver_events (trace w))
                 @ chunks_of (nat batch_size) (filter (\<lambda>url. url \<notin> ledger) all_urls)"
    by (simp add: batches_append batches_paced)
  then show "batches (trace w')
           = batches (trace w)
             @ chunks_of (nat batch_size) (filter (\<lambda>url. url \<notin> ledger) all_urls)"
    by (simp add: batches_driver_events)
next
  show "concat (chunks_of (nat batch_size) (filter (\<lambda>url. url \<notin> ledger) all_urls))
           = filter (\<lambda>url. url \<notin> ledger) all_urls"
    using assms(4) by (simp add: concat_chunks_of)
next
  assume l: "length xs = 120"
  then show "map length (chunks_of (nat 50) xs) = [50, 50, 20]"
    using chunks_of_120_50 by simp
next
  assume l: "length xs = 120"
  then show "total_batches xs 50 = 3"
    by (simp add: total_batches_def)
next
  assume l: "length xs = 120"
  have "map (\<lambda>i. batch_slice xs 50 (int i)) [0..<nat (total_batches xs 50)] = chunks_of (nat 50) xs"
    by (rule slices_are_chunks) simp
  moreover have "nat (total_batches xs 50) = 3"
    using l by (simp add: total_batches_def)
  moreover have "[0..<3] = [0, 1, 2::nat]"
    by (simp add: upt_rec)
  ultimately have "[batch_slice xs 50 0, batch_slice xs 50 1, batch_slice xs 50 2] = chunks_of 50 xs"
    by simp
  then have "map length [batch_slice xs 50 0, batch_slice xs 50 1, batch_slice xs 50 2]
               = [50, 50, 20]"
    using chunks_of_120_50 [OF l] by simp
  then show "map (\<lambda>batch_num. length (batch_slice xs 50 batch_num)) [0, 1, 2] = [50, 50, 20]"
    by simp
qed

theorem chunks_fixed_size_in_order_witness:
  "batches (trace (snd (batch_download_from_file ok_tool (\<lambda>k. k) (\<lambda>pending. 0)
      ''urls.txt'' ''out'' 2 1 None None w_three_urls)))
     = [[''A'', ''B''], [''C'']]
   \<and> length (replicate 120 ''u'') = 120
   \<and> map length (chunks_of (nat 50) (replicate 120 ''u'')) = [50, 50, 20]
   \<and> total_batches (replicate 120 ''u'') 50 = 3
   \<and> map (\<lambda>batch_num. length (batch_slice (replicate 120 ''u'') 50 batch_num)) [0, 1, 2]
     = [50, 50, 20]"
proof -
  have run: "batch_download_from_file ok_tool (\<lambda>k. k) (\<lambda>pending. 0) ''urls.txt'' ''out'' 2 1
               None None w_three_urls
             = (Inr (), snd (batch_download_from_file ok_tool (\<lambda>k. k) (\<lambda>pending. 0)
                               ''urls.txt'' ''out'' 2 1 None None w_three_urls))"
    using three_urls_run by (metis prod.collapse)
  have "(0::int) < 2" by simp
  from chunks_fixed_size_in_order
         [OF three_urls_facts this run, of "replicate 120 ''u''", unfolded three_urls_chunks]
  show ?thesis
    by (simp add: w_three_urls_def batches_def)
qed

text \<open>
  Claim C3 says that the driver pauses after every chunk except the last, for a duration
  in \<open>[5,60)\<close>. On a run with a single chunk the code still pauses after it, and the
  pause, \<open>random.randint(5, 60)\<close>, can be 60 seconds.
\<close>

theorem pause_after_last_chunk_counterexample:
  "driver_events (trace (snd (batch_download_from_file ok_tool (\<lambda>k. 55) (\<lambda>pending. 0)
      ''urls.txt'' ''out'' 50 1 None None w_one_url)))
   = [Batch [''ABC''], Pace 60]
   \<and> \<not> ((60::int) < 60)"
  by (simp add: driver_defs run_defs ok_tool_def w_one_url_def)

text \<open>
  Claim C3, amended: in a run of the driver that completes (\<open>driver_completes\<close> says
  when it does), with a positive chunk size,
  the driver takes the chunks of the remaining list in order and pauses after each of
  them, the last one included, for a whole number of seconds between 5 and 60, both
  included.
\<close>

theorem chunks_in_order_pause_after_each:
  assumes "ledger_name url_file = Inr downloaded_file"
      and "read_urls url_file w = Inr all_urls"
      and "read_downloaded_urls downloaded_file w = Inr ledger"
      and "0 < batch_size"
      and "batch_download_from_file yt rnd pick url_file output_dir batch_size
             max_workers cf cb w = (Inr u, w')"
  shows "\<exists>secs. length secs
                  = length (chunks_of (nat batch_size) (filter (\<lambda>url. url \<notin> ledger) all_urls))
           \<and> (\<forall>s\<in>set secs. 5 \<le> s \<and> s \<le> 60)
           \<and> driver_events (trace w')
               = driver_events (trace w)
                 @ paced (chunks_of (nat batch_size) (filter (\<lambda>url. url \<notin> ledger) all_urls))
                     secs"
  using assms by (rule driver_run)

theorem chunks_in_order_pause_after_each_witness:
  "\<exists>secs. length secs = 2 \<and> (\<forall>s\<in>set secs. 5 \<le> s \<and> s \<le> 60)
     \<and> driver_events (trace (snd (batch_download_from_file ok_tool (\<lambda>k. k) (\<lambda>pending. 0)
          ''urls.txt'' ''out'' 2 1 None None w_three_urls)))
       = paced [[''A'', ''B''], [''C'']] secs"
proof -
  have run: "batch_download_from_file ok_tool (\<lambda>k. k) (\<lambda>pending. 0) ''urls.txt'' ''out'' 2 1
               None None w_three_urls
             = (Inr (), snd (batch_download_from_file ok_tool (\<lambda>k. k) (\<lambda>pending. 0)
                               ''urls.txt'' ''out'' 2 1 None None w_three_urls))"
    using three_urls_run by (metis prod.collapse)
  have "(0::int) < 2" by simp
  from chunks_in_order_pause_after_each [OF three_urls_facts this run, unfolded three_urls_chunks]
  show ?thesis
    by (simp add: w_three_urls_def numeral_2_eq_2)
qed

end
